theory Spec2Isabelle
  imports Complex_Main
begin

section \<open>SmoothGradInterpreterV2.interpret: data model\<close>

text \<open>
  The embedding follows \<^verbatim>\<open>interpretdl/interpreter/smooth_grad_v2.py\<close>.

  A preprocessed sample (one entry of \<^verbatim>\<open>data\<close>, shape (channels, height, width)) is a
  nested list of numbers; \<^verbatim>\<open>data\<close>, \<^verbatim>\<open>data_noised\<close> and \<^verbatim>\<open>gradients\<close> are lists of such
  samples (the leading numpy axis). Entries are exact reals: rounding of float32 is not
  modelled. Python's unbounded integers \<^verbatim>\<open>n_samples\<close> and \<^verbatim>\<open>split\<close> are \<^typ>\<open>int\<close>.
\<close>

type_synonym tensor3 = "real list list list"

type_synonym label = int

text \<open>
  Exceptions are values. \<^verbatim>\<open>AssertionError\<close> is the \<^verbatim>\<open>assert len(data) == 1\<close> of line 66,
  \<^verbatim>\<open>ValueError\<close> and \<^verbatim>\<open>IndexError\<close> are what numpy raises for a zero-size reduction, an
  empty concatenation, an impossible reshape, a negative repeat count or scale, and an
  index out of range. Whatever the external prediction function raises is carried
  unchanged in \<open>PredictFnError\<close>: the source has no try/except around its calls.
\<close>

datatype 'e error = AssertionError | ValueError | IndexError | PredictFnError 'e

text \<open>
  What the call does to the outside, in order: draws from \<^verbatim>\<open>np.random.normal\<close> (scale and
  size), calls of \<^verbatim>\<open>self.predict_fn\<close> (batch and labels), \<^verbatim>\<open>show_vis_explanation\<close> and
  \<^verbatim>\<open>save_image\<close>.
\<close>

datatype 'vis event =
    Draw real "nat list"
  | Predict "tensor3 list" "label list option"
  | Show 'vis
  | Save string 'vis

text \<open>
  The state a call can change: the attribute \<^verbatim>\<open>self.labels\<close> (absent until assigned), the
  state of the process-wide random generator, and the log of external effects.
\<close>

record ('r, 'vis) world =
  self_labels :: "label list option"
  rng :: 'r
  trace :: "'vis event list"

definition emit :: "'vis event \<Rightarrow> ('r, 'vis) world \<Rightarrow> ('r, 'vis) world" where
  "emit ev w = w\<lparr>trace := trace w @ [ev]\<rparr>"

text \<open>The external prediction function: (batch, labels or None) to (gradients, predictions).\<close>

type_synonym 'e predict_fn =
  "tensor3 list \<Rightarrow> label list option \<Rightarrow> 'e + (tensor3 list \<times> label list)"

text \<open>
  \<^verbatim>\<open>np.random.normal(0.0, scale, size)\<close>: external; it consumes generator state and returns
  an array of the requested size (here four-dimensional, a list of samples).
\<close>

type_synonym 'r normal_fn = "real \<Rightarrow> nat list \<Rightarrow> 'r \<Rightarrow> tensor3 list \<times> 'r"

section \<open>numpy and Python primitives used by interpret\<close>

definition flatten3 :: "tensor3 \<Rightarrow> real list" where
  "flatten3 d = concat (concat d)"

text \<open>\<^verbatim>\<open>np.max\<close> / \<^verbatim>\<open>np.min\<close> over all axes of one sample; a zero-size reduction raises.\<close>

definition np_max :: "tensor3 \<Rightarrow> 'e error + real" where
  "np_max d = (case flatten3 d of [] \<Rightarrow> Inl ValueError | x # xs \<Rightarrow> Inr (fold max xs x))"

definition np_min :: "tensor3 \<Rightarrow> 'e error + real" where
  "np_min d = (case flatten3 d of [] \<Rightarrow> Inl ValueError | x # xs \<Rightarrow> Inr (fold min xs x))"

text \<open>
  \<^verbatim>\<open>d.shape\<close>. A nested list loses the trailing dimensions when a leading one is 0; such
  samples raise in the calibration (zero-size reduction) before their shape is read.
\<close>

definition shape3 :: "tensor3 \<Rightarrow> nat list" where
  "shape3 d =
     (case d of
        [] \<Rightarrow> [0]
      | p # _ \<Rightarrow> (case p of [] \<Rightarrow> [length d, 0] | row # _ \<Rightarrow> [length d, length p, length row]))"

text \<open>Elementwise \<^verbatim>\<open>data + noise\<close> on operands of one shape.\<close>

definition add3 :: "tensor3 \<Rightarrow> tensor3 \<Rightarrow> tensor3" where
  "add3 a b = map2 (map2 (map2 (+))) a b"

definition add4 :: "tensor3 list \<Rightarrow> tensor3 list \<Rightarrow> tensor3 list" where
  "add4 a b = map2 add3 a b"

text \<open>\<^verbatim>\<open>np.concatenate(arrays, axis=0)\<close>: an empty list of arrays raises ValueError.\<close>

definition np_concatenate :: "'a list list \<Rightarrow> 'e error + 'a list" where
  "np_concatenate xss = (if xss = [] then Inl ValueError else Inr (concat xss))"

text \<open>\<^verbatim>\<open>np.repeat(labels, k)\<close>: every element k times; a negative count raises ValueError.\<close>

definition np_repeat :: "label list \<Rightarrow> int \<Rightarrow> 'e error + label list" where
  "np_repeat ls k = (if k < 0 then Inl ValueError else Inr (concat (map (replicate (nat k)) ls)))"

text \<open>\<^verbatim>\<open>np.array(labels).reshape((1, ))\<close>: possible only for exactly one element.\<close>

definition reshape1 :: "label list \<Rightarrow> 'e error + label list" where
  "reshape1 ls = (if length ls = 1 then Inr ls else Inl ValueError)"

text \<open>Python slice bounds: a negative bound counts from the end, then it is clamped.\<close>

definition slice_bound :: "nat \<Rightarrow> int \<Rightarrow> nat" where
  "slice_bound n k = (if k < 0 then nat (max 0 (int n + k)) else min n (nat k))"

text \<open>\<^verbatim>\<open>xs[a:b]\<close> and \<^verbatim>\<open>xs[a:]\<close>.\<close>

definition py_slice :: "'a list \<Rightarrow> int \<Rightarrow> int \<Rightarrow> 'a list" where
  "py_slice xs a b = drop (slice_bound (length xs) a) (take (slice_bound (length xs) b) xs)"

definition py_slice_from :: "'a list \<Rightarrow> int \<Rightarrow> 'a list" where
  "py_slice_from xs a = drop (slice_bound (length xs) a) xs"

text \<open>\<^verbatim>\<open>xs[i]\<close>: negative indices count from the end; out of range raises IndexError.\<close>

definition py_index :: "'a list \<Rightarrow> int \<Rightarrow> 'e error + 'a" where
  "py_index xs i =
     (if 0 \<le> i \<and> i < int (length xs) then Inr (xs ! nat i)
      else if i < 0 \<and> - int (length xs) \<le> i then Inr (xs ! nat (int (length xs) + i))
      else Inl IndexError)"

text \<open>
  \<^verbatim>\<open>np.mean(gradients, axis=0, keepdims=True)\<close>: one sample, the entrywise mean over the
  batch axis, kept as a batch of one. (Of an empty batch numpy returns NaN entries with a
  warning; the model has no NaN and returns an empty sample there.)
\<close>

definition mean_entry :: "tensor3 list \<Rightarrow> nat \<Rightarrow> nat \<Rightarrow> nat \<Rightarrow> real" where
  "mean_entry gs c h v = (\<Sum>g\<leftarrow>gs. g ! c ! h ! v) / real (length gs)"

definition np_mean0 :: "tensor3 list \<Rightarrow> tensor3 list" where
  "np_mean0 gs =
     (case gs of
        [] \<Rightarrow> [[]]
      | g # _ \<Rightarrow>
          [map (\<lambda>c. map (\<lambda>h. map (\<lambda>v. mean_entry gs c h v) [0..<length (g ! c ! h)])
                         [0..<length (g ! c)])
               [0..<length g]])"

text \<open>\<^verbatim>\<open>np.abs(a).sum(0)\<close>: sum of absolute values over the channel axis.\<close>

definition abs_sum0 :: "tensor3 \<Rightarrow> real list list" where
  "abs_sum0 a =
     (case a of
        [] \<Rightarrow> []
      | p # _ \<Rightarrow> map (\<lambda>h. map (\<lambda>v. \<Sum>c\<leftarrow>a. \<bar>c ! h ! v\<bar>) [0..<length (p ! h)]) [0..<length p])"

text \<open>
  Modelled from the spec: \<^verbatim>\<open>preprocess_save_path(save_path, 1)\<close> of
  \<^verbatim>\<open>data_processor/readers.py\<close> is not among the sources. The spec names \<^verbatim>\<open>save_path\<close> an
  "optional output location" handed on as a \<^verbatim>\<open>(save_path, rendered_image)\<close> pair for the
  one image of the call: the path, or None, as a list of one entry.
\<close>

definition preprocess_save_path :: "string option \<Rightarrow> string option list" where
  "preprocess_save_path save_path = [save_path]"

section \<open>The stages of interpret\<close>

subsection \<open>Lines 70-75: the labels\<close>

definition resolve_labels ::
  "'e predict_fn \<Rightarrow> tensor3 list \<Rightarrow> label list option \<Rightarrow> ('r, 'vis) world
     \<Rightarrow> ('e error + label list) \<times> ('r, 'vis) world" where
  "resolve_labels predict_fn data labels w =
     (case labels of
        None \<Rightarrow>
          (let w1 = emit (Predict data None) w in
           case predict_fn data None of
             Inl e \<Rightarrow> (Inl (PredictFnError e), w1)
           | Inr (_, preds) \<Rightarrow> (reshape1 preds, w1))
      | Some ls \<Rightarrow> (reshape1 ls, w))"

subsection \<open>Lines 78-80: the standard deviations\<close>

text \<open>
  \<^verbatim>\<open>max_axis\<close> is every axis but the first, so the maximum and the minimum are taken over
  all channels and positions of a sample: \<^verbatim>\<open>stds\<close> has one entry per sample.
\<close>

definition sample_std :: "real \<Rightarrow> tensor3 \<Rightarrow> 'e error + real" where
  "sample_std noise_amount d =
     (case np_max d of
        Inl e \<Rightarrow> Inl e
      | Inr mx \<Rightarrow> (case np_min d of Inl e \<Rightarrow> Inl e | Inr mn \<Rightarrow> Inr (noise_amount * (mx - mn))))"

fun calibrate :: "real \<Rightarrow> tensor3 list \<Rightarrow> 'e error + real list" where
  "calibrate noise_amount [] = Inr []"
| "calibrate noise_amount (d # ds) =
     (case sample_std noise_amount d of
        Inl e \<Rightarrow> Inl e
      | Inr s \<Rightarrow> (case calibrate noise_amount ds of Inl e \<Rightarrow> Inl e | Inr ss \<Rightarrow> Inr (s # ss)))"

subsection \<open>Lines 82-91: the noised batch\<close>

text \<open>
  The comprehension of lines 84-88 over \<^verbatim>\<open>enumerate(data)\<close>, as a recursion over the pairs
  \<^verbatim>\<open>(stds[j], d)\<close>; \<^verbatim>\<open>np.random.normal\<close> raises ValueError for a negative scale.
\<close>

fun draw_noise ::
  "'r normal_fn \<Rightarrow> (real \<times> tensor3) list \<Rightarrow> ('r, 'vis) world
     \<Rightarrow> ('e error + tensor3 list list) \<times> ('r, 'vis) world" where
  "draw_noise normal [] w = (Inr [], w)"
| "draw_noise normal ((s, d) # rest) w =
     (if s < 0 then (Inl ValueError, w)
      else
        (let size = 1 # shape3 d;
             (z, r) = normal s size (rng w);
             w1 = emit (Draw s size) (w\<lparr>rng := r\<rparr>)
         in case draw_noise normal rest w1 of
              (Inl e, w2) \<Rightarrow> (Inl e, w2)
            | (Inr zs, w2) \<Rightarrow> (Inr (z # zs), w2)))"

text \<open>The loop of lines 83-89; \<open>k\<close> counts the iterations still to run.\<close>

fun noise_loop ::
  "'r normal_fn \<Rightarrow> real list \<Rightarrow> tensor3 list \<Rightarrow> nat \<Rightarrow> tensor3 list list \<Rightarrow> ('r, 'vis) world
     \<Rightarrow> ('e error + tensor3 list list) \<times> ('r, 'vis) world" where
  "noise_loop normal stds data 0 acc w = (Inr acc, w)"
| "noise_loop normal stds data (Suc k) acc w =
     (case draw_noise normal (zip stds data) w of
        (Inl e, w1) \<Rightarrow> (Inl e, w1)
      | (Inr zs, w1) \<Rightarrow>
          (case np_concatenate zs of
             Inl e \<Rightarrow> (Inl e, w1)
           | Inr noise \<Rightarrow> noise_loop normal stds data k (acc @ [add4 data noise]) w1))"

definition make_noised ::
  "'r normal_fn \<Rightarrow> real list \<Rightarrow> tensor3 list \<Rightarrow> int \<Rightarrow> ('r, 'vis) world
     \<Rightarrow> ('e error + tensor3 list) \<times> ('r, 'vis) world" where
  "make_noised normal stds data n_samples w =
     (case noise_loop normal stds data (nat n_samples) [] w of
        (Inl e, w1) \<Rightarrow> (Inl e, w1)
      | (Inr acc, w1) \<Rightarrow> (np_concatenate acc, w1))"

subsection \<open>Lines 96-107: the chunked evaluation\<close>

text \<open>The batch of line 100, \<^verbatim>\<open>data_noised[i*chunk: (i+1) * chunk]\<close>.\<close>

definition front_chunk :: "'a list \<Rightarrow> int \<Rightarrow> int \<Rightarrow> 'a list" where
  "front_chunk data_noised chunk i = py_slice data_noised (i * chunk) ((i + 1) * chunk)"

text \<open>
  The loop of lines 99-101 over the indices still to visit; \<open>acc\<close> is
  \<^verbatim>\<open>gradient_chunks\<close>. A call is logged when it is made, also when it raises.
\<close>

fun chunk_loop ::
  "'e predict_fn \<Rightarrow> tensor3 list \<Rightarrow> label list \<Rightarrow> int \<Rightarrow> int list \<Rightarrow> tensor3 list list
     \<Rightarrow> ('r, 'vis) world \<Rightarrow> ('e error + tensor3 list list) \<times> ('r, 'vis) world" where
  "chunk_loop predict_fn data_noised labels chunk [] acc w = (Inr acc, w)"
| "chunk_loop predict_fn data_noised labels chunk (i # is) acc w =
     (case np_repeat labels chunk of
        Inl e \<Rightarrow> (Inl e, w)
      | Inr ls \<Rightarrow>
          (let batch = front_chunk data_noised chunk i;
               w1 = emit (Predict batch (Some ls)) w
           in case predict_fn batch (Some ls) of
                Inl e \<Rightarrow> (Inl (PredictFnError e), w1)
              | Inr (gradients_i, _) \<Rightarrow>
                  chunk_loop predict_fn data_noised labels chunk is (acc @ [gradients_i]) w1))"

text \<open>\<^verbatim>\<open>range(k)\<close> as the list of its values.\<close>

definition py_range :: "int \<Rightarrow> int list" where
  "py_range k = map int [0..<nat k]"

text \<open>
  Lines 96-107. Besides the gradients the result carries the value the loop variable
  \<^verbatim>\<open>i\<close> holds afterwards: the argument \<open>i0\<close> (left by the loop of line 83) unless the loop
  of line 99 ran, which leaves \<^verbatim>\<open>split - 2\<close>.
\<close>

definition evaluate ::
  "'e predict_fn \<Rightarrow> tensor3 list \<Rightarrow> label list \<Rightarrow> int \<Rightarrow> int \<Rightarrow> int \<Rightarrow> ('r, 'vis) world
     \<Rightarrow> ('e error + tensor3 list \<times> int) \<times> ('r, 'vis) world" where
  "evaluate predict_fn data_noised labels n_samples split i0 w =
     (if split > 1 then
        (let chunk = n_samples div split in
         case chunk_loop predict_fn data_noised labels chunk (py_range (split - 1)) [] w of
           (Inl e, w1) \<Rightarrow> (Inl e, w1)
         | (Inr gradient_chunks, w1) \<Rightarrow>
             (case np_repeat labels (n_samples - chunk * (split - 1)) of
                Inl e \<Rightarrow> (Inl e, w1)
              | Inr ls \<Rightarrow>
                  (let batch = py_slice_from data_noised (chunk * (split - 1));
                       w2 = emit (Predict batch (Some ls)) w1
                   in case predict_fn batch (Some ls) of
                        Inl e \<Rightarrow> (Inl (PredictFnError e), w2)
                      | Inr (gradients_s, _) \<Rightarrow>
                          (case np_concatenate (gradient_chunks @ [gradients_s]) of
                             Inl e \<Rightarrow> (Inl e, w2)
                           | Inr gradients \<Rightarrow> (Inr (gradients, split - 2), w2)))))
      else
        (case np_repeat labels n_samples of
           Inl e \<Rightarrow> (Inl e, w)
         | Inr ls \<Rightarrow>
             (let w1 = emit (Predict data_noised (Some ls)) w
              in case predict_fn data_noised (Some ls) of
                   Inl e \<Rightarrow> (Inl (PredictFnError e), w1)
                 | Inr (gradients, _) \<Rightarrow> (Inr (gradients, i0), w1))))"

subsection \<open>Lines 111-121: visualisation and saving\<close>

text \<open>
  \<^verbatim>\<open>explanation_to_vis\<close> is external (a parameter, with the style fixed by the call);
  its first argument \<^verbatim>\<open>imgs[i]\<close> is evaluated first. \<^verbatim>\<open>avg_gradients[0]\<close> is the one sample
  that \<^verbatim>\<open>keepdims\<close> leaves.
\<close>

definition visualize ::
  "('img \<Rightarrow> real list list \<Rightarrow> 'vis) \<Rightarrow> 'img list \<Rightarrow> int \<Rightarrow> tensor3 list \<Rightarrow> bool
     \<Rightarrow> string option \<Rightarrow> ('r, 'vis) world \<Rightarrow> ('e error + unit) \<times> ('r, 'vis) world" where
  "visualize explanation_to_vis imgs i avg_gradients visual save_path w =
     (if save_path = None \<and> \<not> visual then (Inr (), w)
      else
        (let save_paths = preprocess_save_path save_path in
         case py_index imgs i of
           Inl e \<Rightarrow> (Inl e, w)
         | Inr img \<Rightarrow>
             (case py_index avg_gradients 0 of
                Inl e \<Rightarrow> (Inl e, w)
              | Inr avg \<Rightarrow>
                  (let vis_explanation = explanation_to_vis img (abs_sum0 avg);
                       w1 = (if visual then emit (Show vis_explanation) w else w)
                   in case py_index save_paths i of
                        Inl e \<Rightarrow> (Inl e, w1)
                      | Inr None \<Rightarrow> (Inr (), w1)
                      | Inr (Some p) \<Rightarrow> (Inr (), emit (Save p vis_explanation) w1)))))"

subsection \<open>Lines 63-109: everything up to the averaged gradients\<close>

text \<open>
  \<open>imgs\<close> and \<open>data\<close> are the two results of the external
  \<^verbatim>\<open>images_transform_pipeline\<close>. After the loop of line 83 the variable \<^verbatim>\<open>i\<close> holds
  \<^verbatim>\<open>n_samples - 1\<close>; for \<^verbatim>\<open>n_samples <= 0\<close> the loop does not run and line 91 raises.
  The result is \<^verbatim>\<open>avg_gradients\<close>, the resolved \<^verbatim>\<open>labels\<close> and the final value of \<^verbatim>\<open>i\<close>.

  Line 66 is an \<^verbatim>\<open>assert\<close> statement. Python executes it only while \<^verbatim>\<open>__debug__\<close> holds, which
  is the default; under \<^verbatim>\<open>python -O\<close> or \<^verbatim>\<open>PYTHONOPTIMIZE\<close> the statement is dropped and the
  call goes on with whatever \<^verbatim>\<open>data\<close> holds. \<open>debug\<close> is that flag.
\<close>

definition smooth_grad ::
  "bool \<Rightarrow> 'e predict_fn \<Rightarrow> 'r normal_fn \<Rightarrow> tensor3 list \<Rightarrow> label list option \<Rightarrow> real \<Rightarrow> int
     \<Rightarrow> int \<Rightarrow> ('r, 'vis) world
     \<Rightarrow> ('e error + tensor3 list \<times> label list \<times> int) \<times> ('r, 'vis) world" where
  "smooth_grad debug predict_fn normal data labels noise_amount n_samples split w =
     (if debug \<and> length data \<noteq> 1 then (Inl AssertionError, w)
      else
        (case resolve_labels predict_fn data labels w of
           (Inl e, w1) \<Rightarrow> (Inl e, w1)
         | (Inr labels1, w1) \<Rightarrow>
             (case calibrate noise_amount data of
                Inl e \<Rightarrow> (Inl e, w1)
              | Inr stds \<Rightarrow>
                  (case make_noised normal stds data n_samples w1 of
                     (Inl e, w2) \<Rightarrow> (Inl e, w2)
                   | (Inr data_noised, w2) \<Rightarrow>
                       (case evaluate predict_fn data_noised labels1 n_samples split
                               (n_samples - 1) w2 of
                          (Inl e, w3) \<Rightarrow> (Inl e, w3)
                        | (Inr (gradients, i), w3) \<Rightarrow>
                            (Inr (np_mean0 gradients, labels1, i), w3))))))"

subsection \<open>The whole call\<close>

text \<open>
  \<^verbatim>\<open>SmoothGradInterpreterV2.interpret\<close> (the name itself is an Isar keyword). Line 124
  assigns \<^verbatim>\<open>self.labels\<close> last, so only a call that raises nothing reaches it.
\<close>

definition interpret_call ::
  "bool \<Rightarrow> 'e predict_fn \<Rightarrow> 'r normal_fn \<Rightarrow> ('img \<Rightarrow> real list list \<Rightarrow> 'vis) \<Rightarrow> 'img list
     \<Rightarrow> tensor3 list \<Rightarrow> label list option \<Rightarrow> real \<Rightarrow> int \<Rightarrow> int \<Rightarrow> bool \<Rightarrow> string option
     \<Rightarrow> ('r, 'vis) world \<Rightarrow> ('e error + tensor3 list) \<times> ('r, 'vis) world" where
  "interpret_call debug predict_fn normal explanation_to_vis imgs data labels noise_amount n_samples
       split visual save_path w =
     (case smooth_grad debug predict_fn normal data labels noise_amount n_samples split w of
        (Inl e, w1) \<Rightarrow> (Inl e, w1)
      | (Inr (avg_gradients, labels1, i), w1) \<Rightarrow>
          (case visualize explanation_to_vis imgs i avg_gradients visual save_path w1 of
             (Inl e, w2) \<Rightarrow> (Inl e, w2)
           | (Inr _, w2) \<Rightarrow> (Inr avg_gradients, w2\<lparr>self_labels := Some labels1\<rparr>)))"

subsection \<open>Reading the outcome of the evaluation\<close>

text \<open>
  The gradients an evaluation returns (line 104 or 107), and their mean as line 109
  computes it; an exception stays the exception.
\<close>

definition gradients_of :: "('e error + tensor3 list \<times> int) \<times> 'w \<Rightarrow> 'e error + tensor3 list" where
  "gradients_of res = (case fst res of Inl e \<Rightarrow> Inl e | Inr (gradients, i) \<Rightarrow> Inr gradients)"

definition avg_gradients_of :: "('e error + tensor3 list \<times> int) \<times> 'w \<Rightarrow> 'e error + tensor3 list" where
  "avg_gradients_of res = (case gradients_of res of Inl e \<Rightarrow> Inl e | Inr gradients \<Rightarrow> Inr (np_mean0 gradients))"

subsection \<open>Reading the log of a call\<close>

text \<open>
  Properties of the log are stated with three notions. A logged event \<open>call_raised\<close> when
  it is a call of the prediction function that raised; it \<open>is_output\<close> when it shows or
  saves an image. \<open>logged predict_fn w err w'\<close> relates the states before and after a stage
  that ended with the exception \<open>err\<close> (or none): \<^verbatim>\<open>self.labels\<close> is unchanged, the log has
  grown by events that are not outputs, and either \<open>err\<close> is what the prediction function
  raised in the last logged call, all earlier calls having returned, or every logged call
  returned.
\<close>

fun call_raised :: "'e predict_fn \<Rightarrow> 'vis event \<Rightarrow> bool" where
  "call_raised predict_fn (Predict batch ls) = isl (predict_fn batch ls)"
| "call_raised predict_fn (Draw s sz) = False"
| "call_raised predict_fn (Show v) = False"
| "call_raised predict_fn (Save p v) = False"

fun is_output :: "'vis event \<Rightarrow> bool" where
  "is_output (Show v) = True"
| "is_output (Save p v) = True"
| "is_output (Draw s sz) = False"
| "is_output (Predict batch ls) = False"

definition err_of :: "'e error + 'a \<Rightarrow> 'e error option" where
  "err_of res = (case res of Inl e \<Rightarrow> Some e | Inr _ \<Rightarrow> None)"

definition logged ::
  "'e predict_fn \<Rightarrow> ('r, 'vis) world \<Rightarrow> 'e error option \<Rightarrow> ('r, 'vis) world \<Rightarrow> bool" where
  "logged predict_fn w err w' \<longleftrightarrow>
     self_labels w' = self_labels w \<and>
     (\<exists>evs. trace w' = trace w @ evs \<and> (\<forall>ev\<in>set evs. \<not> is_output ev) \<and>
        (\<forall>e. err = Some (PredictFnError e) \<longrightarrow>
           (\<exists>pre b ls. evs = pre @ [Predict b ls] \<and> predict_fn b ls = Inl e
              \<and> (\<forall>ev\<in>set pre. \<not> call_raised predict_fn ev))) \<and>
        ((\<forall>e. err \<noteq> Some (PredictFnError e)) \<longrightarrow> (\<forall>ev\<in>set evs. \<not> call_raised predict_fn ev)))"

section \<open>Auxiliary facts\<close>

subsection \<open>Slices\<close>

lemma slice_bound_nonneg: "0 \<le> k \<Longrightarrow> slice_bound n k = min n (nat k)"
  by (simp add: slice_bound_def)

lemma py_slice_nonneg:
  "0 \<le> a \<Longrightarrow> 0 \<le> b \<Longrightarrow> py_slice xs a b = drop (nat a) (take (nat b) xs)"
  by (cases "nat a \<le> length xs") (simp_all add: py_slice_def slice_bound_nonneg min_def)

lemma py_slice_from_nonneg: "0 \<le> a \<Longrightarrow> py_slice_from xs a = drop (nat a) xs"
  by (cases "nat a \<le> length xs") (simp_all add: py_slice_from_def slice_bound_nonneg min_def)

lemma np_repeat_single: "0 \<le> k \<Longrightarrow> np_repeat [l] k = Inr (replicate (nat k) l)"
  by (simp add: np_repeat_def)

lemma take_drop_take: "a \<le> b \<Longrightarrow> take a xs @ drop a (take b xs) = take b xs"
proof -
  assume "a \<le> b"
  then have "take a xs = take a (take b xs)" by (simp add: min_def)
  then show ?thesis by (metis append_take_drop_id)
qed

lemma concat_front:
  assumes "0 \<le> c"
  shows "concat (map (front_chunk xs c) (map int [0..<m])) = take (m * nat c) xs"
proof (induction m)
  case 0
  then show ?case by simp
next
  case (Suc m)
  have nn: "0 \<le> int m * c" "0 \<le> (int m + 1) * c" using assms by simp_all
  have "front_chunk xs c (int m) = drop (m * nat c) (take (Suc m * nat c) xs)"
    using assms nn by (simp add: front_chunk_def py_slice_nonneg nat_mult_distrib nat_add_distrib distrib_right add.commute)
  then show ?case using Suc by (simp add: take_drop_take)
qed

lemma length_front:
  assumes "0 \<le> c" "0 \<le> i" "(i + 1) * c \<le> int (length xs)"
  shows "length (front_chunk xs c i) = nat c"
proof -
  obtain a where a: "i = int a" using assms(2) nonneg_int_cases by blast
  obtain b where b: "c = int b" using assms(1) nonneg_int_cases by blast
  have "int ((a + 1) * b) \<le> int (length xs)" using assms(3) unfolding a b by (simp add: algebra_simps)
  then have le: "(a + 1) * b \<le> length xs" by (simp only: of_nat_le_iff)
  have "front_chunk xs c i = drop (a * b) (take ((a + 1) * b) xs)"
    unfolding front_chunk_def a b
    by (simp add: py_slice_nonneg nat_mult_distrib nat_add_distrib distrib_right add.commute)
  then show ?thesis using le by (simp add: b min_def)
qed

subsection \<open>The log of effects\<close>

lemma emit_trace [simp]: "trace (emit ev w) = trace w @ [ev]"
  and emit_rng [simp]: "rng (emit ev w) = rng w"
  and emit_self_labels [simp]: "self_labels (emit ev w) = self_labels w"
  by (simp_all add: emit_def)

lemma emit_after: "emit ev (w\<lparr>trace := trace w @ xs\<rparr>) = w\<lparr>trace := trace w @ xs @ [ev]\<rparr>"
  by (simp add: emit_def)

lemma emit_then: "(emit ev w)\<lparr>trace := trace (emit ev w) @ xs\<rparr> = w\<lparr>trace := trace w @ ev # xs\<rparr>"
  by (simp add: emit_def)

subsection \<open>The chunk loop\<close>

lemma chunk_loop_all_ok:
  assumes "0 \<le> c"
    and "\<forall>i\<in>set js. \<exists>p. predict_fn (front_chunk dn c i) (Some (replicate (nat c) l)) = Inr (G i, p)"
  shows "chunk_loop predict_fn dn [l] c js acc w =
           (Inr (acc @ map G js),
            w\<lparr>trace := trace w @ map (\<lambda>i. Predict (front_chunk dn c i) (Some (replicate (nat c) l))) js\<rparr>)"
  using assms(2)
proof (induction js arbitrary: acc w)
  case Nil
  then show ?case by simp
next
  case (Cons i js)
  from Cons.prems obtain p where
    p: "predict_fn (front_chunk dn c i) (Some (replicate (nat c) l)) = Inr (G i, p)" by auto
  have rest: "\<forall>i\<in>set js. \<exists>p. predict_fn (front_chunk dn c i) (Some (replicate (nat c) l)) = Inr (G i, p)"
    using Cons.prems by simp
  show ?case
    using assms(1) p by (simp add: np_repeat_single Cons.IH[OF rest] emit_then Let_def)
qed

lemma chunk_loop_Inr:
  assumes "0 \<le> c"
    and "chunk_loop predict_fn dn [l] c js acc w = (Inr r, w')"
  shows "w' = w\<lparr>trace := trace w @ map (\<lambda>i. Predict (front_chunk dn c i) (Some (replicate (nat c) l))) js\<rparr>
       \<and> (\<exists>gs. r = acc @ gs \<and> length gs = length js
              \<and> (\<forall>k<length js. \<exists>p. predict_fn (front_chunk dn c (js ! k)) (Some (replicate (nat c) l)) = Inr (gs ! k, p)))"
  using assms(2)
proof (induction js arbitrary: acc w)
  case Nil
  then show ?case by simp
next
  case (Cons i js)
  obtain g p where
    p: "predict_fn (front_chunk dn c i) (Some (replicate (nat c) l)) = Inr (g, p)"
    and rest: "chunk_loop predict_fn dn [l] c js (acc @ [g])
                 (emit (Predict (front_chunk dn c i) (Some (replicate (nat c) l))) w) = (Inr r, w')"
    using Cons.prems assms(1)
    by (auto simp: np_repeat_single Let_def split: sum.splits prod.splits)
  from Cons.IH[OF rest] obtain gs where
    w': "w' = w\<lparr>trace := trace w @ Predict (front_chunk dn c i) (Some (replicate (nat c) l))
               # map (\<lambda>i. Predict (front_chunk dn c i) (Some (replicate (nat c) l))) js\<rparr>"
    and gs: "r = (acc @ [g]) @ gs" "length gs = length js"
       "\<forall>k<length js. \<exists>p. predict_fn (front_chunk dn c (js ! k)) (Some (replicate (nat c) l)) = Inr (gs ! k, p)"
    by (auto simp: emit_then)
  have "\<forall>k<length (i # js). \<exists>p. predict_fn (front_chunk dn c ((i # js) ! k)) (Some (replicate (nat c) l)) = Inr ((g # gs) ! k, p)"
    using p gs(3) by (auto simp: nth_Cons split: nat.splits)
  moreover have "r = acc @ (g # gs)" "length (g # gs) = length (i # js)" using gs by simp_all
  ultimately show ?case using w' by (intro conjI exI[of _ "g # gs"]) simp_all
qed

subsection \<open>Chunk arithmetic\<close>

lemma chunk_nonneg: "0 \<le> n \<Longrightarrow> 1 < s \<Longrightarrow> 0 \<le> n div (s::int)"
  by (simp add: pos_imp_zdiv_nonneg_iff)

lemma chunk_times_split_le:
  assumes "0 \<le> n" "1 < (s::int)"
  shows "n div s * s \<le> n"
proof -
  have "n = s * (n div s) + n mod s" by simp
  moreover have "0 \<le> n mod s" using assms(2) by simp
  ultimately have "s * (n div s) \<le> n" by linarith
  then show ?thesis by (simp add: mult.commute)
qed

lemma front_within:
  assumes "0 \<le> n" "1 < (s::int)" "0 \<le> i" "i < s - 1"
  shows "(i + 1) * (n div s) \<le> n"
proof -
  have c: "0 \<le> n div s" using assms by (simp add: chunk_nonneg)
  have "i + 1 \<le> s" using assms by simp
  then have "(i + 1) * (n div s) \<le> s * (n div s)" using c by (rule mult_right_mono)
  also have "\<dots> \<le> n" using chunk_times_split_le[OF assms(1,2)] by (simp add: mult.commute)
  finally show ?thesis .
qed

lemma tail_within:
  assumes "0 \<le> n" "1 < (s::int)"
  shows "n div s * (s - 1) \<le> n"
  using front_within[OF assms, of "s - 2"] assms by (simp add: mult.commute)

lemma tail_ge_chunk:
  assumes "0 \<le> n" "1 < (s::int)"
  shows "n div s \<le> n - n div s * (s - 1)"
  using chunk_times_split_le[OF assms] by (simp add: algebra_simps)

lemma py_range_set: "i \<in> set (py_range k) \<longleftrightarrow> 0 \<le> i \<and> i < k"
  by (auto simp: py_range_def image_iff intro: bexI[of _ "nat i"])

lemma py_range_length [simp]: "length (py_range k) = nat k"
  by (simp add: py_range_def)

lemma py_range_nth: "j < nat k \<Longrightarrow> py_range k ! j = int j"
  by (simp add: py_range_def)

lemma chunk_loop_prefix:
  assumes "0 \<le> c"
  shows "\<exists>k\<le>length js. snd (chunk_loop predict_fn dn [l] c js acc w) =
           w\<lparr>trace := trace w @ map (\<lambda>i. Predict (front_chunk dn c i) (Some (replicate (nat c) l))) (take k js)\<rparr>"
proof (induction js arbitrary: acc w)
  case Nil
  then show ?case by simp
next
  case (Cons i js)
  let ?ev = "Predict (front_chunk dn c i) (Some (replicate (nat c) l))"
  show ?case
  proof (cases "predict_fn (front_chunk dn c i) (Some (replicate (nat c) l))")
    case (Inl e)
    then have "snd (chunk_loop predict_fn dn [l] c (i # js) acc w) = emit ?ev w"
      using assms by (simp add: np_repeat_single Let_def)
    then show ?thesis by (intro exI[of _ 1]) (simp add: emit_def)
  next
    case (Inr gp)
    obtain g p where gp: "gp = (g, p)" by (cases gp)
    from Cons.IH[of "acc @ [g]" "emit ?ev w"] obtain k where
      k: "k \<le> length js"
      "snd (chunk_loop predict_fn dn [l] c js (acc @ [g]) (emit ?ev w)) =
         (emit ?ev w)\<lparr>trace := trace (emit ?ev w) @ map (\<lambda>i. Predict (front_chunk dn c i) (Some (replicate (nat c) l))) (take k js)\<rparr>"
      by blast
    have "snd (chunk_loop predict_fn dn [l] c (i # js) acc w) =
            w\<lparr>trace := trace w @ map (\<lambda>i. Predict (front_chunk dn c i) (Some (replicate (nat c) l))) (take (Suc k) (i # js))\<rparr>"
      using assms Inr gp k(2) by (simp add: np_repeat_single Let_def emit_then)
    then show ?thesis using k(1) by (intro exI[of _ "Suc k"]) simp
  qed
qed

subsection \<open>Evaluation under a prediction function that treats samples independently\<close>

lemma map2_replicate: "map2 g xs (replicate (length xs) l) = map (\<lambda>x. g x l) xs"
  by (induction xs) simp_all

lemma front_chunks_then_tail:
  assumes "0 \<le> c" "0 \<le> m"
  shows "concat (map (front_chunk xs c) (py_range m)) @ py_slice_from xs (c * m) = xs"
proof -
  have "0 \<le> c * m" using assms by simp
  then have "py_slice_from xs (c * m) = drop (nat m * nat c) xs"
    using assms by (simp add: py_slice_from_nonneg nat_mult_distrib mult.commute)
  then show ?thesis using assms(1) by (simp add: py_range_def concat_front del: map_map)
qed

lemma length_tail:
  assumes "0 \<le> a" "a \<le> int (length xs)"
  shows "length (py_slice_from xs a) = nat (int (length xs) - a)"
  using assms by (simp add: py_slice_from_nonneg nat_diff_distrib')

lemma evaluate_indep:
  assumes indep: "\<forall>xs ls. xs \<noteq> [] \<longrightarrow> length ls = length xs \<longrightarrow> (\<exists>p. predict_fn xs (Some ls) = Inr (map2 g xs ls, p))"
    and n: "n_samples = int (length dn)" and k: "1 \<le> k" "k \<le> n_samples"
  shows "fst (evaluate predict_fn dn [l] n_samples k i0 w) =
           Inr (map (\<lambda>x. g x l) dn, if 1 < k then k - 2 else i0)"
proof (cases "1 < k")
  case False
  then have k1: "k = 1" using k by simp
  have ne: "dn \<noteq> []" using n k by auto
  obtain p where "predict_fn dn (Some (replicate (length dn) l)) = Inr (map2 g dn (replicate (length dn) l), p)"
    using indep ne by (metis length_replicate)
  then show ?thesis using k1 n by (simp add: evaluate_def np_repeat_single Let_def map2_replicate)
next
  case True
  define c where "c = n_samples div k"
  have n0: "0 \<le> n_samples" using n by simp
  have c1: "1 \<le> c" unfolding c_def using k True
    by (metis div_self less_le_not_le not_one_le_zero zdiv_mono1 zero_less_one order.strict_trans)
  have c0: "0 \<le> c" using c1 by simp
  let ?f = "\<lambda>x. g x l"
  let ?G = "\<lambda>i. map ?f (front_chunk dn c i)"
  have fronts: "\<forall>i\<in>set (py_range (k - 1)). \<exists>p. predict_fn (front_chunk dn c i) (Some (replicate (nat c) l)) = Inr (?G i, p)"
  proof
    fix i assume "i \<in> set (py_range (k - 1))"
    then have i: "0 \<le> i" "i < k - 1" by (simp_all add: py_range_set)
    have "(i + 1) * c \<le> int (length dn)"
      using front_within[OF n0 True i] by (simp add: c_def n)
    then have len: "length (front_chunk dn c i) = nat c" using c0 i(1) by (rule length_front[rotated 2])
    then have "front_chunk dn c i \<noteq> []" using c1 by auto
    then obtain p where "predict_fn (front_chunk dn c i) (Some (replicate (nat c) l)) =
        Inr (map2 g (front_chunk dn c i) (replicate (nat c) l), p)"
      using indep len by (metis length_replicate)
    then show "\<exists>p. predict_fn (front_chunk dn c i) (Some (replicate (nat c) l)) = Inr (?G i, p)"
      using map2_replicate[of g "front_chunk dn c i" l] len by auto
  qed
  have loop: "chunk_loop predict_fn dn [l] c (py_range (k - 1)) [] w =
      (Inr ([] @ map ?G (py_range (k - 1))),
       w\<lparr>trace := trace w @ map (\<lambda>i. Predict (front_chunk dn c i) (Some (replicate (nat c) l))) (py_range (k - 1))\<rparr>)"
    using c0 fronts by (rule chunk_loop_all_ok)
  let ?tail = "py_slice_from dn (c * (k - 1))"
  have tw: "c * (k - 1) \<le> n_samples" using tail_within[OF n0 True] by (simp add: c_def)
  have tpos: "0 \<le> c * (k - 1)" using c0 True by simp
  have tlen: "length ?tail = nat (n_samples - c * (k - 1))"
    using length_tail[OF tpos] tw n by simp
  have "c \<le> n_samples - c * (k - 1)" using tail_ge_chunk[OF n0 True] by (simp add: c_def)
  then have "?tail \<noteq> []" using tlen c1 by auto
  then obtain p where "predict_fn ?tail (Some (replicate (nat (n_samples - c * (k - 1))) l)) =
        Inr (map2 g ?tail (replicate (nat (n_samples - c * (k - 1))) l), p)"
    using indep tlen by (metis length_replicate)
  then have tail: "predict_fn ?tail (Some (replicate (nat (n_samples - c * (k - 1))) l)) = Inr (map ?f ?tail, p)"
    using map2_replicate[of g ?tail l] tlen by simp
  have rep: "np_repeat [l] (n_samples - c * (k - 1)) = Inr (replicate (nat (n_samples - c * (k - 1))) l)"
    using tw by (simp add: np_repeat_single)
  have cat: "concat (map ?G (py_range (k - 1))) @ map ?f ?tail = map ?f dn"
  proof -
    have "concat (map ?G (py_range (k - 1))) @ map ?f ?tail
          = map ?f (concat (map (front_chunk dn c) (py_range (k - 1))) @ ?tail)"
      by (simp add: map_concat comp_def)
    also have "\<dots> = map ?f dn" using front_chunks_then_tail[OF c0, of "k - 1" dn] True by simp
    finally show ?thesis .
  qed
  have "evaluate predict_fn dn [l] n_samples k i0 w =
      (Inr (map ?f dn, k - 2),
       emit (Predict ?tail (Some (replicate (nat (n_samples - c * (k - 1))) l)))
         (w\<lparr>trace := trace w @ map (\<lambda>i. Predict (front_chunk dn c i) (Some (replicate (nat c) l))) (py_range (k - 1))\<rparr>))"
    unfolding evaluate_def Let_def c_def[symmetric]
    by (simp add: True loop rep tail cat np_concatenate_def)
  then show ?thesis using True by simp
qed

subsection \<open>The calls an evaluation logs\<close>

lemma evaluate_unsplit:
  assumes "\<not> 1 < split" "0 \<le> n"
  shows "snd (evaluate predict_fn dn [l] n split i0 w) = emit (Predict dn (Some (replicate (nat n) l))) w"
    and "evaluate predict_fn dn [l] n split i0 w = (Inr r, w') \<Longrightarrow> snd r = i0"
  using assms by (auto simp: evaluate_def np_repeat_single Let_def split: sum.splits prod.splits)

lemma evaluate_split_Inr:
  assumes s: "1 < split" and n: "0 \<le> n"
    and ev: "evaluate predict_fn dn [l] n split i0 w = (Inr r, w')"
  shows "w' = w\<lparr>trace := trace w
            @ map (\<lambda>i. Predict (front_chunk dn (n div split) i) (Some (replicate (nat (n div split)) l)))
                  (py_range (split - 1))
            @ [Predict (py_slice_from dn (n div split * (split - 1)))
                 (Some (replicate (nat (n - n div split * (split - 1))) l))]\<rparr>"
    and "snd r = split - 2"
proof -
  define c where "c = n div split"
  have c0: "0 \<le> c" unfolding c_def using n s by (rule chunk_nonneg)
  have t0: "0 \<le> n - c * (split - 1)" using tail_within[OF n s] by (simp add: c_def)
  obtain res w1 where loop: "chunk_loop predict_fn dn [l] c (py_range (split - 1)) [] w = (res, w1)"
    by (cases "chunk_loop predict_fn dn [l] c (py_range (split - 1)) [] w")
  from ev s loop obtain gcs where res: "res = Inr gcs"
    unfolding evaluate_def Let_def c_def[symmetric] by (cases res) auto
  from chunk_loop_Inr[OF c0 loop[unfolded res]]
  have w1: "w1 = w\<lparr>trace := trace w @ map (\<lambda>i. Predict (front_chunk dn c i) (Some (replicate (nat c) l))) (py_range (split - 1))\<rparr>"
    by simp
  from ev s loop res t0
  have "w' = emit (Predict (py_slice_from dn (c * (split - 1))) (Some (replicate (nat (n - c * (split - 1))) l))) w1
        \<and> snd r = split - 2"
    unfolding evaluate_def Let_def c_def[symmetric]
    by (auto simp: np_repeat_single split: sum.splits prod.splits)
  then show "w' = w\<lparr>trace := trace w
            @ map (\<lambda>i. Predict (front_chunk dn (n div split) i) (Some (replicate (nat (n div split)) l)))
                  (py_range (split - 1))
            @ [Predict (py_slice_from dn (n div split * (split - 1)))
                 (Some (replicate (nat (n - n div split * (split - 1))) l))]\<rparr>"
    and "snd r = split - 2"
    using w1 by (simp_all add: emit_def c_def)
qed

lemma length_front_chunk:
  assumes "0 \<le> n" "1 < split" "n = int (length dn)" "i \<in> set (py_range (split - 1))"
  shows "length (front_chunk dn (n div split) i) = nat (n div split)"
proof -
  have i: "0 \<le> i" "i < split - 1" using assms(4) by (simp_all add: py_range_set)
  have "(i + 1) * (n div split) \<le> int (length dn)"
    using front_within[OF assms(1,2) i] assms(3) by simp
  with chunk_nonneg[OF assms(1,2)] i(1) show ?thesis by (rule length_front)
qed

lemma length_tail_chunk:
  assumes "0 \<le> n" "1 < split" "n = int (length dn)"
  shows "length (py_slice_from dn (n div split * (split - 1))) = nat (n - n div split * (split - 1))"
proof -
  have "0 \<le> n div split * (split - 1)" using chunk_nonneg[OF assms(1,2)] assms(2) by simp
  moreover have "n div split * (split - 1) \<le> int (length dn)"
    using tail_within[OF assms(1,2)] assms(3) by simp
  ultimately show ?thesis using assms(3) by (simp add: length_tail)
qed

lemma evaluate_split_prefix:
  assumes s: "1 < split" and n: "0 \<le> n"
  shows "\<exists>k. trace (snd (evaluate predict_fn dn [l] n split i0 w)) = trace w @ take k
           (map (\<lambda>i. Predict (front_chunk dn (n div split) i) (Some (replicate (nat (n div split)) l)))
                  (py_range (split - 1))
            @ [Predict (py_slice_from dn (n div split * (split - 1)))
                 (Some (replicate (nat (n - n div split * (split - 1))) l))])"
proof -
  define c where "c = n div split"
  let ?fronts = "map (\<lambda>i. Predict (front_chunk dn c i) (Some (replicate (nat c) l))) (py_range (split - 1))"
  let ?tail = "Predict (py_slice_from dn (c * (split - 1))) (Some (replicate (nat (n - c * (split - 1))) l))"
  have c0: "0 \<le> c" unfolding c_def using n s by (rule chunk_nonneg)
  have t0: "0 \<le> n - c * (split - 1)" using tail_within[OF n s] by (simp add: c_def)
  obtain res w1 where loop: "chunk_loop predict_fn dn [l] c (py_range (split - 1)) [] w = (res, w1)"
    by (cases "chunk_loop predict_fn dn [l] c (py_range (split - 1)) [] w")
  have "\<exists>k. trace (snd (evaluate predict_fn dn [l] n split i0 w)) = trace w @ take k (?fronts @ [?tail])"
  proof (cases res)
    case (Inl e)
    from chunk_loop_prefix[OF c0, of "py_range (split - 1)" predict_fn dn l "[]" w] loop
    obtain k where k: "k \<le> length (py_range (split - 1))"
      "w1 = w\<lparr>trace := trace w @ map (\<lambda>i. Predict (front_chunk dn c i) (Some (replicate (nat c) l))) (take k (py_range (split - 1)))\<rparr>"
      by auto
    have "snd (evaluate predict_fn dn [l] n split i0 w) = w1"
      using s loop Inl unfolding evaluate_def Let_def c_def[symmetric] by simp
    then have "trace (snd (evaluate predict_fn dn [l] n split i0 w)) = trace w @ take k (?fronts @ [?tail])"
      using k by (simp add: take_map)
    then show ?thesis ..
  next
    case (Inr gcs)
    from chunk_loop_Inr[OF c0 loop[unfolded Inr]]
    have w1: "w1 = w\<lparr>trace := trace w @ ?fronts\<rparr>" by simp
    have "snd (evaluate predict_fn dn [l] n split i0 w) = emit ?tail w1"
      using s loop Inr t0 unfolding evaluate_def Let_def c_def[symmetric]
      by (auto simp: np_repeat_single split: sum.splits prod.splits)
    then have "trace (snd (evaluate predict_fn dn [l] n split i0 w)) =
        trace w @ take (Suc (length ?fronts)) (?fronts @ [?tail])"
      using w1 by simp
    then show ?thesis ..
  qed
  then show ?thesis by (simp add: c_def)
qed

lemma chunk_loop_Inl:
  assumes "0 \<le> c"
    and "chunk_loop predict_fn dn [l] c js acc w = (Inl e, w')"
  shows "\<exists>k<length js.
           w' = w\<lparr>trace := trace w @ map (\<lambda>i. Predict (front_chunk dn c i) (Some (replicate (nat c) l))) (take (Suc k) js)\<rparr>
         \<and> (\<forall>j<k. \<not> isl (predict_fn (front_chunk dn c (js ! j)) (Some (replicate (nat c) l))))
         \<and> (\<exists>e'. predict_fn (front_chunk dn c (js ! k)) (Some (replicate (nat c) l)) = Inl e'
                 \<and> e = PredictFnError e')"
  using assms(2)
proof (induction js arbitrary: acc w)
  case Nil
  then show ?case by simp
next
  case (Cons i js)
  let ?ev = "\<lambda>i. Predict (front_chunk dn c i) (Some (replicate (nat c) l))"
  show ?case
  proof (cases "predict_fn (front_chunk dn c i) (Some (replicate (nat c) l))")
    case (Inl e')
    then have "w' = emit (?ev i) w" "e = PredictFnError e'"
      using Cons.prems assms(1) by (simp_all add: np_repeat_single Let_def)
    then show ?thesis using Inl by (intro exI[of _ 0]) (simp add: emit_def)
  next
    case (Inr gp)
    obtain g p where gp: "gp = (g, p)" by (cases gp)
    have rest: "chunk_loop predict_fn dn [l] c js (acc @ [g]) (emit (?ev i) w) = (Inl e, w')"
      using Cons.prems assms(1) Inr gp by (simp add: np_repeat_single Let_def)
    from Cons.IH[OF rest] obtain k e' where k: "k < length js"
      "w' = (emit (?ev i) w)\<lparr>trace := trace (emit (?ev i) w) @ map ?ev (take (Suc k) js)\<rparr>"
      "\<forall>j<k. \<not> isl (predict_fn (front_chunk dn c (js ! j)) (Some (replicate (nat c) l)))"
      "predict_fn (front_chunk dn c (js ! k)) (Some (replicate (nat c) l)) = Inl e'"
      "e = PredictFnError e'"
      by blast
    have w': "w' = w\<lparr>trace := trace w @ map ?ev (take (Suc (Suc k)) (i # js))\<rparr>"
      using k(2) by (simp add: emit_then)
    have ok: "\<forall>j<Suc k. \<not> isl (predict_fn (front_chunk dn c ((i # js) ! j)) (Some (replicate (nat c) l)))"
      using k(3) Inr by (auto simp: nth_Cons split: nat.splits)
    show ?thesis
      using k(1) w' ok k(4,5) by (intro exI[of _ "Suc k"]) simp
  qed
qed

text \<open>
  The calls of an evaluation, whatever its outcome: the planned batches are taken in
  order, each with the label repeated once per sample, until a call raises.
\<close>

lemma evaluate_calls:
  assumes n: "n = int (length dn)"
    and b: "batches = (if 1 < split
               then map (front_chunk dn (n div split)) (py_range (split - 1))
                      @ [py_slice_from dn (n div split * (split - 1))]
               else [dn])"
  shows "\<exists>k. 1 \<le> k \<and> k \<le> length batches
           \<and> trace (snd (evaluate predict_fn dn [l] n split i0 w))
               = trace w @ map (\<lambda>b. Predict b (Some (replicate (length b) l))) (take k batches)
           \<and> (\<forall>j<k - 1. \<not> isl (predict_fn (batches ! j) (Some (replicate (length (batches ! j)) l))))
           \<and> (\<forall>e. fst (evaluate predict_fn dn [l] n split i0 w) = Inl e \<longleftrightarrow>
                  (\<exists>e'. predict_fn (batches ! (k - 1)) (Some (replicate (length (batches ! (k - 1))) l)) = Inl e'
                          \<and> e = PredictFnError e'))
           \<and> (\<not> isl (fst (evaluate predict_fn dn [l] n split i0 w)) \<longrightarrow> k = length batches)"
proof (cases "1 < split")
  case False
  have n0: "0 \<le> n" using n by simp
  have bs: "batches = [dn]" using b False by simp
  have rep: "np_repeat [l] n = Inr (replicate (length dn) l)" using n by (simp add: np_repeat_single)
  show ?thesis
  proof (cases "predict_fn dn (Some (replicate (length dn) l))")
    case (Inl e')
    then have "evaluate predict_fn dn [l] n split i0 w
        = (Inl (PredictFnError e'), emit (Predict dn (Some (replicate (length dn) l))) w)"
      by (simp add: evaluate_def Let_def False rep Inl)
    then show ?thesis using Inl bs by (intro exI[of _ 1]) auto
  next
    case (Inr gp)
    obtain g p where gp: "gp = (g, p)" by (cases gp)
    have "evaluate predict_fn dn [l] n split i0 w
        = (Inr (g, i0), emit (Predict dn (Some (replicate (length dn) l))) w)"
      by (simp add: evaluate_def Let_def False rep Inr gp)
    then show ?thesis using Inr bs by (intro exI[of _ 1]) auto
  qed
next
  case True
  have n0: "0 \<le> n" using n by simp
  define c where "c = n div split"
  define js where "js = py_range (split - 1)"
  define tail where "tail = py_slice_from dn (c * (split - 1))"
  let ?lab = "\<lambda>b. Some (replicate (length b) l)"
  let ?P = "\<lambda>b. Predict b (?lab b)"
  let ?ev = "\<lambda>i. Predict (front_chunk dn c i) (Some (replicate (nat c) l))"
  have c0: "0 \<le> c" unfolding c_def using n0 True by (rule chunk_nonneg)
  have t0: "0 \<le> n - c * (split - 1)" using tail_within[OF n0 True] by (simp add: c_def)
  have bs: "batches = map (front_chunk dn c) js @ [tail]"
    using b True by (simp add: c_def js_def tail_def)
  have ljs: "length js = nat (split - 1)" by (simp add: js_def)
  have fl: "\<forall>i\<in>set js. length (front_chunk dn c i) = nat c"
    unfolding c_def js_def using length_front_chunk[OF n0 True n] by blast
  have tl: "length tail = nat (n - c * (split - 1))"
    unfolding c_def tail_def using length_tail_chunk[OF n0 True n] by simp
  have fj: "\<And>j. j < length js \<Longrightarrow>
      predict_fn (batches ! j) (?lab (batches ! j))
        = predict_fn (front_chunk dn c (js ! j)) (Some (replicate (nat c) l))"
    using fl by (simp add: bs nth_append)
  have pre: "\<And>k. k \<le> length js \<Longrightarrow> map ?P (take k batches) = map ?ev (take k js)"
  proof -
    fix k assume k: "k \<le> length js"
    have "take k batches = map (front_chunk dn c) (take k js)" using k by (simp add: bs take_map)
    moreover have "\<forall>i\<in>set (take k js). length (front_chunk dn c i) = nat c"
      using fl by (meson in_set_takeD)
    ultimately show "map ?P (take k batches) = map ?ev (take k js)" by (simp add: comp_def)
  qed
  obtain res w1 where loop: "chunk_loop predict_fn dn [l] c js [] w = (res, w1)"
    by (cases "chunk_loop predict_fn dn [l] c js [] w")
  show ?thesis
  proof (cases res)
    case (Inl e)
    from chunk_loop_Inl[OF c0 loop[unfolded Inl]] obtain k e' where k: "k < length js"
      "w1 = w\<lparr>trace := trace w @ map ?ev (take (Suc k) js)\<rparr>"
      "\<forall>j<k. \<not> isl (predict_fn (front_chunk dn c (js ! j)) (Some (replicate (nat c) l)))"
      "predict_fn (front_chunk dn c (js ! k)) (Some (replicate (nat c) l)) = Inl e'"
      "e = PredictFnError e'"
      by blast
    have run: "evaluate predict_fn dn [l] n split i0 w = (Inl e, w1)"
      unfolding evaluate_def Let_def c_def[symmetric] js_def[symmetric] by (simp add: True loop Inl)
    have 1: "1 \<le> Suc k" "Suc k \<le> length batches" using k(1) by (simp_all add: bs)
    have 2: "trace (snd (evaluate predict_fn dn [l] n split i0 w)) = trace w @ map ?P (take (Suc k) batches)"
    proof -
      have pk: "map ?P (take (Suc k) batches) = map ?ev (take (Suc k) js)"
        using k(1) by (intro pre) simp
      have "trace (snd (evaluate predict_fn dn [l] n split i0 w)) = trace w @ map ?ev (take (Suc k) js)"
        by (simp add: run k(2))
      then show ?thesis by (simp only: pk)
    qed
    have 3: "\<forall>j<Suc k - 1. \<not> isl (predict_fn (batches ! j) (?lab (batches ! j)))"
    proof (intro allI impI)
      fix j assume "j < Suc k - 1"
      then have j: "j < k" "j < length js" using k(1) by simp_all
      show "\<not> isl (predict_fn (batches ! j) (?lab (batches ! j)))"
        using k(3) j(1) by (simp add: fj[OF j(2)])
    qed
    have 4: "\<forall>e0. fst (evaluate predict_fn dn [l] n split i0 w) = Inl e0 \<longleftrightarrow>
                  (\<exists>e'. predict_fn (batches ! (Suc k - 1)) (?lab (batches ! (Suc k - 1))) = Inl e'
                          \<and> e0 = PredictFnError e')"
      using run k(4,5) by (auto simp: fj[OF k(1)])
    have 5: "\<not> isl (fst (evaluate predict_fn dn [l] n split i0 w)) \<longrightarrow> Suc k = length batches"
      using run by simp
    show ?thesis using 1 2 3 4 5 by (intro exI[of _ "Suc k"] conjI)
  next
    case (Inr gcs)
    from chunk_loop_Inr[OF c0 loop[unfolded Inr]] obtain gs where
      w1: "w1 = w\<lparr>trace := trace w @ map ?ev js\<rparr>"
      and gs: "\<forall>k<length js. \<exists>p. predict_fn (front_chunk dn c (js ! k)) (Some (replicate (nat c) l)) = Inr (gs ! k, p)"
      by auto
    have rep: "np_repeat [l] (n - c * (split - 1)) = Inr (replicate (length tail) l)"
      using t0 tl by (simp add: np_repeat_single)
    have 1: "1 \<le> length batches" "length batches \<le> length batches" by (simp_all add: bs)
    have all: "map ?P batches = map ?ev js @ [?P tail]"
      using pre[of "length js"] by (simp add: bs)
    have 3: "\<forall>j<length batches - 1. \<not> isl (predict_fn (batches ! j) (?lab (batches ! j)))"
    proof (intro allI impI)
      fix j assume "j < length batches - 1"
      then have j: "j < length js" by (simp add: bs)
      from gs j obtain p where "predict_fn (front_chunk dn c (js ! j)) (Some (replicate (nat c) l)) = Inr (gs ! j, p)"
        by blast
      then show "\<not> isl (predict_fn (batches ! j) (?lab (batches ! j)))" by (simp add: fj[OF j])
    qed
    have last: "batches ! (length batches - 1) = tail" by (simp add: bs nth_append)
    show ?thesis
    proof (cases "predict_fn tail (?lab tail)")
      case (Inl e')
      have run: "evaluate predict_fn dn [l] n split i0 w = (Inl (PredictFnError e'), emit (?P tail) w1)"
        unfolding evaluate_def Let_def c_def[symmetric] js_def[symmetric] tail_def[symmetric]
        by (simp add: True loop \<open>res = Inr gcs\<close> rep Inl)
      have 2: "trace (snd (evaluate predict_fn dn [l] n split i0 w)) = trace w @ map ?P (take (length batches) batches)"
        by (simp add: run w1 all)
      have 4: "\<forall>e0. fst (evaluate predict_fn dn [l] n split i0 w) = Inl e0 \<longleftrightarrow>
                  (\<exists>e'. predict_fn (batches ! (length batches - 1)) (?lab (batches ! (length batches - 1))) = Inl e'
                          \<and> e0 = PredictFnError e')"
        using run Inl last by auto
      show ?thesis using 1 2 3 4 by (intro exI[of _ "length batches"] conjI) simp_all
    next
      case (Inr gp)
      obtain g p where gp: "gp = (g, p)" by (cases gp)
      have run: "evaluate predict_fn dn [l] n split i0 w = (Inr (concat (gcs @ [g]), split - 2), emit (?P tail) w1)"
        unfolding evaluate_def Let_def c_def[symmetric] js_def[symmetric] tail_def[symmetric]
        by (simp add: np_concatenate_def True loop \<open>res = Inr gcs\<close> rep Inr gp)
      have 2: "trace (snd (evaluate predict_fn dn [l] n split i0 w)) = trace w @ map ?P (take (length batches) batches)"
        by (simp add: run w1 all)
      have 4: "\<forall>e0. fst (evaluate predict_fn dn [l] n split i0 w) = Inl e0 \<longleftrightarrow>
                  (\<exists>e'. predict_fn (batches ! (length batches - 1)) (?lab (batches ! (length batches - 1))) = Inl e'
                          \<and> e0 = PredictFnError e')"
        using run Inr last by auto
      show ?thesis using 1 2 3 4 by (intro exI[of _ "length batches"] conjI) simp_all
    qed
  qed
qed

subsection \<open>What a stage may log and raise\<close>

lemma err_of_simps [simp]: "err_of (Inl e) = Some e" "err_of (Inr x) = None"
  by (simp_all add: err_of_def)

lemma logged_refl: "(\<forall>e. err \<noteq> Some (PredictFnError e)) \<Longrightarrow> logged predict_fn w err w"
  by (simp add: logged_def)

lemma logged_weaken:
  "logged predict_fn w None w' \<Longrightarrow> (\<forall>e. err \<noteq> Some (PredictFnError e)) \<Longrightarrow> logged predict_fn w err w'"
  by (simp add: logged_def)

lemma logged_trans:
  assumes "logged predict_fn w None w1" and "logged predict_fn w1 err w2"
  shows "logged predict_fn w err w2"
proof -
  from assms(1) obtain evs1 where
    1: "self_labels w1 = self_labels w" "trace w1 = trace w @ evs1"
       "\<forall>ev\<in>set evs1. \<not> is_output ev" "\<forall>ev\<in>set evs1. \<not> call_raised predict_fn ev"
    by (auto simp: logged_def)
  from assms(2) obtain evs2 where
    2: "self_labels w2 = self_labels w1" "trace w2 = trace w1 @ evs2"
       "\<forall>ev\<in>set evs2. \<not> is_output ev"
       "\<forall>e. err = Some (PredictFnError e) \<longrightarrow>
           (\<exists>pre b ls. evs2 = pre @ [Predict b ls] \<and> predict_fn b ls = Inl e
              \<and> (\<forall>ev\<in>set pre. \<not> call_raised predict_fn ev))"
       "(\<forall>e. err \<noteq> Some (PredictFnError e)) \<longrightarrow> (\<forall>ev\<in>set evs2. \<not> call_raised predict_fn ev)"
    by (auto simp: logged_def)
  have a: "trace w2 = trace w @ (evs1 @ evs2)" using 1(2) 2(2) by simp
  have b: "\<forall>ev\<in>set (evs1 @ evs2). \<not> is_output ev" using 1(3) 2(3) by auto
  have c: "\<forall>e. err = Some (PredictFnError e) \<longrightarrow>
           (\<exists>pre b ls. evs1 @ evs2 = pre @ [Predict b ls] \<and> predict_fn b ls = Inl e
              \<and> (\<forall>ev\<in>set pre. \<not> call_raised predict_fn ev))"
  proof (intro allI impI)
    fix e assume "err = Some (PredictFnError e)"
    with 2(4) obtain pre b ls where p: "evs2 = pre @ [Predict b ls]" "predict_fn b ls = Inl e"
      "\<forall>ev\<in>set pre. \<not> call_raised predict_fn ev" by blast
    have "evs1 @ evs2 = (evs1 @ pre) @ [Predict b ls]" using p(1) by simp
    moreover have "\<forall>ev\<in>set (evs1 @ pre). \<not> call_raised predict_fn ev" using 1(4) p(3) by auto
    ultimately show "\<exists>pre b ls. evs1 @ evs2 = pre @ [Predict b ls] \<and> predict_fn b ls = Inl e
              \<and> (\<forall>ev\<in>set pre. \<not> call_raised predict_fn ev)" using p(2) by blast
  qed
  have d: "(\<forall>e. err \<noteq> Some (PredictFnError e)) \<longrightarrow> (\<forall>ev\<in>set (evs1 @ evs2). \<not> call_raised predict_fn ev)"
    using 1(4) 2(5) by auto
  have "\<exists>evs. trace w2 = trace w @ evs \<and> (\<forall>ev\<in>set evs. \<not> is_output ev) \<and>
        (\<forall>e. err = Some (PredictFnError e) \<longrightarrow>
           (\<exists>pre b ls. evs = pre @ [Predict b ls] \<and> predict_fn b ls = Inl e
              \<and> (\<forall>ev\<in>set pre. \<not> call_raised predict_fn ev))) \<and>
        ((\<forall>e. err \<noteq> Some (PredictFnError e)) \<longrightarrow> (\<forall>ev\<in>set evs. \<not> call_raised predict_fn ev))"
    using a b c d by (intro exI[of _ "evs1 @ evs2"] conjI)
  then show ?thesis unfolding logged_def using 1(1) 2(1) by simp
qed

lemma logged_draw: "logged predict_fn w None (emit (Draw s sz) (w\<lparr>rng := r\<rparr>))"
  by (simp add: logged_def emit_def)

lemma logged_call_ok: "predict_fn b ls = Inr x \<Longrightarrow> logged predict_fn w None (emit (Predict b ls) w)"
  by (simp add: logged_def emit_def)

lemma logged_call_raised:
  "predict_fn b ls = Inl e \<Longrightarrow> logged predict_fn w (Some (PredictFnError e)) (emit (Predict b ls) w)"
  by (simp add: logged_def emit_def)

lemma np_repeat_Inl: "np_repeat ls k = Inl e \<Longrightarrow> e = ValueError"
  by (simp add: np_repeat_def split: if_splits)

lemma reshape1_Inl: "reshape1 ls = Inl e \<Longrightarrow> e = ValueError"
  by (simp add: reshape1_def split: if_splits)

lemma reshape1_Inr: "reshape1 ls = Inr r \<Longrightarrow> r = ls \<and> length ls = 1"
  by (simp add: reshape1_def split: if_splits)

lemma resolve_labels_logged:
  assumes "resolve_labels predict_fn data labels w = (res, w')"
  shows "logged predict_fn w (err_of res) w'"
proof (cases labels)
  case (Some ls)
  then have r: "w' = w" "res = reshape1 ls" using assms by (simp_all add: resolve_labels_def)
  then have "\<forall>e. err_of res \<noteq> Some (PredictFnError e)"
    by (auto simp: reshape1_def)
  then show ?thesis using r(1) by (simp add: logged_refl)
next
  case None
  show ?thesis
  proof (cases "predict_fn data None")
    case (Inl e)
    then have "res = Inl (PredictFnError e)" "w' = emit (Predict data None) w"
      using assms None by (simp_all add: resolve_labels_def Let_def)
    moreover have "logged predict_fn w (Some (PredictFnError e)) (emit (Predict data None) w)"
      using Inl by (rule logged_call_raised)
    ultimately show ?thesis by simp
  next
    case (Inr gp)
    obtain g p where gp: "gp = (g, p)" by (cases gp)
    have r: "res = reshape1 p" "w' = emit (Predict data None) w"
      using assms None Inr gp by (simp_all add: resolve_labels_def Let_def)
    have "\<forall>e. err_of res \<noteq> Some (PredictFnError e)" using r(1) by (auto simp: reshape1_def)
    moreover have "logged predict_fn w None (emit (Predict data None) w)"
      using Inr by (rule logged_call_ok)
    ultimately show ?thesis using r(2) by (simp add: logged_weaken)
  qed
qed

lemma resolve_labels_Inr:
  assumes "resolve_labels predict_fn data labels w = (Inr ls, w')"
  shows "\<exists>l. ls = [l] \<and> (labels = None \<longrightarrow> (\<exists>g. predict_fn data None = Inr (g, [l])))
            \<and> (\<forall>given. labels = Some given \<longrightarrow> given = [l])"
proof -
  have "length ls = 1"
    using assms by (auto simp: resolve_labels_def Let_def reshape1_def split: option.splits sum.splits prod.splits if_splits)
  then obtain l where l: "ls = [l]" by (cases ls) auto
  show ?thesis using assms unfolding l
    by (auto simp: resolve_labels_def Let_def reshape1_def split: option.splits sum.splits prod.splits if_splits)
qed

lemma sample_std_Inl: "sample_std noise_amount d = Inl e \<Longrightarrow> e = ValueError"
  by (auto simp: sample_std_def np_max_def np_min_def split: sum.splits list.splits)

lemma calibrate_Inl: "calibrate noise_amount ds = Inl e \<Longrightarrow> e = ValueError"
  by (induction ds arbitrary: e) (auto split: sum.splits dest: sample_std_Inl)

lemma draw_noise_logged:
  fixes res :: "'x error + tensor3 list list"
  shows "draw_noise normal sds w = (res, w') \<Longrightarrow>
           logged predict_fn w None w' \<and> (\<forall>e. res = Inl e \<longrightarrow> e = ValueError)"
proof (induction sds arbitrary: w res w')
  case Nil
  then show ?case by (auto simp: logged_refl)
next
  case (Cons sd sds)
  obtain s d where sd: "sd = (s, d)" by (cases sd)
  show ?case
  proof (cases "s < 0")
    case True
    then show ?thesis using Cons.prems sd by (auto simp: logged_refl)
  next
    case False
    let ?sz = "1 # shape3 d"
    let ?w1 = "emit (Draw s ?sz) (w\<lparr>rng := snd (normal s ?sz (rng w))\<rparr>)"
    obtain res2 :: "'x error + tensor3 list list" and w2
      where rec: "draw_noise normal sds ?w1 = (res2, w2)"
      by (cases "draw_noise normal sds ?w1 :: ('x error + tensor3 list list) \<times> _")
    from Cons.IH[OF rec] have ih: "logged predict_fn ?w1 None w2" "\<forall>e. res2 = Inl e \<longrightarrow> e = ValueError"
      by simp_all
    have w': "w' = w2" and res: "\<forall>e. res = Inl e \<longrightarrow> res2 = Inl e"
      using Cons.prems sd False rec by (auto simp: Let_def split: prod.splits sum.splits)
    have "logged predict_fn w None w2" using logged_draw ih(1) by (rule logged_trans)
    then show ?thesis using w' res ih(2) by auto
  qed
qed

lemma noise_loop_logged:
  fixes res :: "'x error + tensor3 list list"
  shows "noise_loop normal stds data k acc w = (res, w') \<Longrightarrow>
     logged predict_fn w None w' \<and> (\<forall>e. res = Inl e \<longrightarrow> e = ValueError)
       \<and> (\<forall>acc'. res = Inr acc' \<longrightarrow> length acc' = length acc + k)"
proof (induction k arbitrary: acc w res w')
  case 0
  then show ?case by (auto simp: logged_refl)
next
  case (Suc k)
  obtain r1 :: "'x error + tensor3 list list" and w1
    where d: "draw_noise normal (zip stds data) w = (r1, w1)"
    by (cases "draw_noise normal (zip stds data) w :: ('x error + tensor3 list list) \<times> _")
  from draw_noise_logged[OF d, where predict_fn = predict_fn] have l1: "logged predict_fn w None w1" "\<forall>e. r1 = Inl e \<longrightarrow> e = ValueError"
    by simp_all
  show ?case
  proof (cases r1)
    case (Inl e)
    then show ?thesis using Suc.prems d l1 by auto
  next
    case (Inr zs)
    show ?thesis
    proof (cases "zs = []")
      case True
      then show ?thesis using Suc.prems d Inr l1 by (auto simp: np_concatenate_def)
    next
      case False
      then have rec: "noise_loop normal stds data k (acc @ [add4 data (concat zs)]) w1 = (res, w')"
        using Suc.prems d Inr by (simp add: np_concatenate_def)
      from Suc.IH[OF rec] have ih: "logged predict_fn w1 None w'" "\<forall>e. res = Inl e \<longrightarrow> e = ValueError"
        "\<forall>acc'. res = Inr acc' \<longrightarrow> length acc' = length (acc @ [add4 data (concat zs)]) + k"
        by simp_all
      have "logged predict_fn w None w'" using l1(1) ih(1) by (rule logged_trans)
      then show ?thesis using ih(2,3) by simp
    qed
  qed
qed

lemma make_noised_logged:
  fixes res :: "'x error + tensor3 list"
  assumes "make_noised normal stds data n_samples w = (res, w')"
  shows "logged predict_fn w None w'" and "res = Inl e \<Longrightarrow> e = ValueError"
    and "res = Inr dn \<Longrightarrow> 1 \<le> n_samples"
proof -
  obtain r1 :: "'x error + tensor3 list list" and w1
    where l: "noise_loop normal stds data (nat n_samples) [] w = (r1, w1)"
    by (cases "noise_loop normal stds data (nat n_samples) [] w :: ('x error + tensor3 list list) \<times> _")
  from noise_loop_logged[OF l, where predict_fn = predict_fn] have l1: "logged predict_fn w None w1" "\<forall>e. r1 = Inl e \<longrightarrow> e = ValueError"
    "\<forall>acc'. r1 = Inr acc' \<longrightarrow> length acc' = nat n_samples" by simp_all
  have w': "w' = w1" using assms l by (cases r1) (simp_all add: make_noised_def)
  show "logged predict_fn w None w'" using l1(1) w' by simp
  show "res = Inl e \<Longrightarrow> e = ValueError"
    using assms l l1(2) by (cases r1) (auto simp: make_noised_def np_concatenate_def split: if_splits)
  show "res = Inr dn \<Longrightarrow> 1 \<le> n_samples"
  proof -
    assume "res = Inr dn"
    then obtain acc where acc: "r1 = Inr acc" "acc \<noteq> []"
      using assms l by (cases r1) (auto simp: make_noised_def np_concatenate_def split: if_splits)
    have la: "length acc = nat n_samples" using l1(3) acc(1) by blast
    have "length acc \<noteq> 0" using acc(2) by simp
    then have "nat n_samples \<noteq> 0" unfolding la .
    then show ?thesis by arith
  qed
qed

lemma chunk_loop_logged:
  fixes predict_fn :: "'e predict_fn"
  shows "chunk_loop predict_fn dn ls c js acc w = (res, w') \<Longrightarrow> logged predict_fn w (err_of res) w'"
proof (induction js arbitrary: acc w)
  case Nil
  then show ?case by (auto simp: logged_refl)
next
  case (Cons i js)
  show ?case
  proof (cases "np_repeat ls c :: 'e error + label list")
    case (Inl e)
    then have "e = ValueError" by (rule np_repeat_Inl)
    then show ?thesis using Cons.prems Inl by (auto simp: logged_refl)
  next
    case (Inr lbls)
    let ?b = "front_chunk dn c i"
    show ?thesis
    proof (cases "predict_fn ?b (Some lbls)")
      case (Inl e)
      then have "res = Inl (PredictFnError e)" "w' = emit (Predict ?b (Some lbls)) w"
        using Cons.prems \<open>np_repeat ls c = Inr lbls\<close> by (simp_all add: Let_def)
      moreover have "logged predict_fn w (Some (PredictFnError e)) (emit (Predict ?b (Some lbls)) w)"
        using Inl by (rule logged_call_raised)
      ultimately show ?thesis by simp
    next
      case (Inr gp)
      obtain g p where gp: "gp = (g, p)" by (cases gp)
      have rec: "chunk_loop predict_fn dn ls c js (acc @ [g]) (emit (Predict ?b (Some lbls)) w) = (res, w')"
        using Cons.prems \<open>np_repeat ls c = Inr lbls\<close> Inr gp by (simp add: Let_def)
      have "logged predict_fn w None (emit (Predict ?b (Some lbls)) w)"
        using Inr by (rule logged_call_ok)
      then show ?thesis using Cons.IH[OF rec] by (rule logged_trans)
    qed
  qed
qed

lemma evaluate_logged:
  fixes predict_fn :: "'e predict_fn"
  assumes "evaluate predict_fn dn ls n split i0 w = (res, w')"
  shows "logged predict_fn w (err_of res) w'"
proof (cases "1 < split")
  case False
  show ?thesis
  proof (cases "np_repeat ls n :: 'e error + label list")
    case (Inl e)
    then have "e = ValueError" by (rule np_repeat_Inl)
    then show ?thesis using assms False Inl by (auto simp: evaluate_def logged_refl)
  next
    case (Inr lbls)
    show ?thesis
    proof (cases "predict_fn dn (Some lbls)")
      case (Inl e)
      then have "res = Inl (PredictFnError e)" "w' = emit (Predict dn (Some lbls)) w"
        using assms False \<open>np_repeat ls n = Inr lbls\<close> by (simp_all add: evaluate_def Let_def)
      moreover have "logged predict_fn w (Some (PredictFnError e)) (emit (Predict dn (Some lbls)) w)"
        using Inl by (rule logged_call_raised)
      ultimately show ?thesis by simp
    next
      case (Inr gp)
      obtain g p where gp: "gp = (g, p)" by (cases gp)
      have "res = Inr (g, i0)" "w' = emit (Predict dn (Some lbls)) w"
        using assms False \<open>np_repeat ls n = Inr lbls\<close> Inr gp by (simp_all add: evaluate_def Let_def)
      moreover have "logged predict_fn w None (emit (Predict dn (Some lbls)) w)"
        using Inr by (rule logged_call_ok)
      ultimately show ?thesis by simp
    qed
  qed
next
  case True
  define c where "c = n div split"
  obtain r1 w1 where loop: "chunk_loop predict_fn dn ls c (py_range (split - 1)) [] w = (r1, w1)"
    by (cases "chunk_loop predict_fn dn ls c (py_range (split - 1)) [] w")
  note l1 = chunk_loop_logged[OF loop]
  show ?thesis
  proof (cases r1)
    case (Inl e)
    then have "res = Inl e" "w' = w1"
      using assms True loop unfolding evaluate_def Let_def c_def[symmetric] by simp_all
    then show ?thesis using l1 Inl by simp
  next
    case (Inr gcs)
    then have l1': "logged predict_fn w None w1" using l1 by simp
    let ?k = "n - c * (split - 1)"
    let ?b = "py_slice_from dn (c * (split - 1))"
    show ?thesis
    proof (cases "np_repeat ls ?k :: 'e error + label list")
      case (Inl e)
      then have "e = ValueError" by (rule np_repeat_Inl)
      then have "res = Inl ValueError" "w' = w1"
        using assms True loop \<open>r1 = Inr gcs\<close> Inl unfolding evaluate_def Let_def c_def[symmetric] by simp_all
      then show ?thesis using logged_weaken[OF l1'] by simp
    next
      case (Inr lbls)
      show ?thesis
      proof (cases "predict_fn ?b (Some lbls)")
        case (Inl e)
        then have "res = Inl (PredictFnError e)" "w' = emit (Predict ?b (Some lbls)) w1"
          using assms True loop \<open>r1 = Inr gcs\<close> \<open>np_repeat ls ?k = Inr lbls\<close>
          unfolding evaluate_def Let_def c_def[symmetric] by simp_all
        moreover have "logged predict_fn w1 (Some (PredictFnError e)) (emit (Predict ?b (Some lbls)) w1)"
          using Inl by (rule logged_call_raised)
        ultimately show ?thesis using logged_trans[OF l1'] by simp
      next
        case (Inr gp)
        obtain g p where gp: "gp = (g, p)" by (cases gp)
        have "res = Inr (concat (gcs @ [g]), split - 2)" "w' = emit (Predict ?b (Some lbls)) w1"
          using assms True loop \<open>r1 = Inr gcs\<close> \<open>np_repeat ls ?k = Inr lbls\<close> Inr gp
          unfolding evaluate_def Let_def c_def[symmetric] by (simp_all add: np_concatenate_def)
        moreover have "logged predict_fn w1 None (emit (Predict ?b (Some lbls)) w1)"
          using Inr by (rule logged_call_ok)
        ultimately show ?thesis using logged_trans[OF l1'] by simp
      qed
    qed
  qed
qed

lemma evaluate_leftover:
  "evaluate predict_fn dn ls n split i0 w = (Inr (g, i), w') \<Longrightarrow> i = (if 1 < split then split - 2 else i0)"
  by (auto simp: evaluate_def Let_def split: if_splits sum.splits prod.splits)

lemma smooth_grad_Inr:
  fixes predict_fn :: "'e predict_fn"
  assumes "smooth_grad debug predict_fn normal data labels noise_amount n_samples split w
             = (Inr (avg, labels1, i), w')"
  shows "\<exists>w1 stds dn w2 gradients.
           (debug \<longrightarrow> length data = 1)
         \<and> resolve_labels predict_fn data labels w = (Inr labels1, w1)
         \<and> (calibrate noise_amount data :: 'e error + real list) = Inr stds
         \<and> make_noised normal stds data n_samples w1 = (Inr dn :: 'e error + tensor3 list, w2)
         \<and> evaluate predict_fn dn labels1 n_samples split (n_samples - 1) w2 = (Inr (gradients, i), w')
         \<and> avg = np_mean0 gradients"
  using assms by (auto simp: smooth_grad_def split: if_splits prod.splits sum.splits)

lemma smooth_grad_logged:
  fixes predict_fn :: "'e predict_fn"
  assumes "smooth_grad debug predict_fn normal data labels noise_amount n_samples split w = (res, w')"
  shows "logged predict_fn w (err_of res) w'"
proof (cases "debug \<and> length data \<noteq> 1")
  case True
  then have "res = Inl AssertionError" "w' = w" using assms by (simp_all add: smooth_grad_def)
  then show ?thesis by (simp add: logged_refl)
next
  case False
  then have nd: "(if debug \<and> length data \<noteq> 1 then x else y) = y" for x y :: "'z"
    by (simp only: if_False)
  note body = assms[unfolded smooth_grad_def nd]
  obtain r1 w1 where rl: "resolve_labels predict_fn data labels w = (r1, w1)"
    by (cases "resolve_labels predict_fn data labels w")
  note l1 = resolve_labels_logged[OF rl]
  show ?thesis
  proof (cases r1)
    case (Inl e)
    have "res = Inl e" "w' = w1" using body by (simp_all add: rl Inl)
    then show ?thesis using l1 Inl by simp
  next
    case labs: (Inr labels1)
    have l1': "logged predict_fn w None w1" using l1 labs by simp
    show ?thesis
    proof (cases "calibrate noise_amount data :: 'e error + real list")
      case (Inl e)
      then have "e = ValueError" by (rule calibrate_Inl)
      moreover have "res = Inl e" "w' = w1" using body by (simp_all add: rl labs Inl)
      ultimately show ?thesis using logged_weaken[OF l1'] by simp
    next
      case cal: (Inr stds)
      obtain r2 :: "'e error + tensor3 list" and w2
        where mn: "make_noised normal stds data n_samples w1 = (r2, w2)"
        by (cases "make_noised normal stds data n_samples w1 :: ('e error + tensor3 list) \<times> _")
      have l2: "logged predict_fn w1 None w2" using mn by (rule make_noised_logged(1))
      have l12: "logged predict_fn w None w2" using l1' l2 by (rule logged_trans)
      show ?thesis
      proof (cases r2)
        case (Inl e)
        then have "e = ValueError" using make_noised_logged(2)[OF mn] by simp
        moreover have "res = Inl e" "w' = w2"
          using body by (simp_all add: rl labs cal mn Inl)
        ultimately show ?thesis using logged_weaken[OF l12] by simp
      next
        case noised: (Inr dn)
        obtain r3 w3 where ev: "evaluate predict_fn dn labels1 n_samples split (n_samples - 1) w2 = (r3, w3)"
          by (cases "evaluate predict_fn dn labels1 n_samples split (n_samples - 1) w2")
        note l3 = evaluate_logged[OF ev]
        have "err_of res = err_of r3 \<and> w' = w3"
        proof (cases r3)
          case (Inl e)
          show ?thesis using body by (auto simp: rl labs cal mn noised ev Inl)
        next
          case (Inr gi)
          obtain g i where gi: "gi = (g, i)" by (cases gi)
          show ?thesis using body by (auto simp: rl labs cal mn noised ev Inr gi)
        qed
        then show ?thesis using logged_trans[OF l12 l3] by simp
      qed
    qed
  qed
qed

lemma smooth_grad_samples:
  fixes predict_fn :: "'e predict_fn"
  assumes "smooth_grad debug predict_fn normal data labels noise_amount n_samples split w
             = (Inr (avg, labels1, i), w')"
  shows "1 \<le> n_samples" and "i = (if 1 < split then split - 2 else n_samples - 1)"
    and "length avg = 1"
proof -
  from smooth_grad_Inr[OF assms] obtain w1 stds dn w2 gradients where
    mn: "make_noised normal stds data n_samples w1 = (Inr dn :: 'e error + tensor3 list, w2)"
    and ev: "evaluate predict_fn dn labels1 n_samples split (n_samples - 1) w2 = (Inr (gradients, i), w')"
    and avg: "avg = np_mean0 gradients"
    by blast
  show "1 \<le> n_samples" using make_noised_logged(3)[OF mn] by simp
  show "i = (if 1 < split then split - 2 else n_samples - 1)" using ev by (rule evaluate_leftover)
  show "length avg = 1" unfolding avg by (simp add: np_mean0_def split: list.splits)
qed

lemma visualize_effects:
  fixes res :: "'e error + unit" and predict_fn :: "'e predict_fn"
  assumes "visualize explanation_to_vis imgs i avg visual save_path w = (res, w')"
  shows "self_labels w' = self_labels w"
    and "\<exists>evs. trace w' = trace w @ evs \<and> (\<forall>ev\<in>set evs. \<not> call_raised predict_fn ev)"
    and "res = Inl e \<Longrightarrow> e = IndexError"
proof -
  show "self_labels w' = self_labels w"
    using assms
    by (auto simp: visualize_def Let_def py_index_def preprocess_save_path_def
             split: if_splits sum.splits option.splits)
  show "res = Inl e \<Longrightarrow> e = IndexError"
    using assms
    by (auto simp: visualize_def Let_def py_index_def preprocess_save_path_def
             split: if_splits sum.splits option.splits)
  have "trace w' = trace w \<or> (\<exists>v. trace w' = trace w @ [Show v])
      \<or> (\<exists>p v. trace w' = trace w @ [Save p v]) \<or> (\<exists>p v. trace w' = trace w @ [Show v, Save p v])"
    using assms
    by (auto simp: visualize_def Let_def py_index_def preprocess_save_path_def
             split: if_splits sum.splits option.splits)
  then show "\<exists>evs. trace w' = trace w @ evs \<and> (\<forall>ev\<in>set evs. \<not> call_raised predict_fn ev)"
  proof (elim disjE exE)
    assume "trace w' = trace w"
    then show ?thesis by (intro exI[of _ "[]"]) simp
  next
    fix v assume "trace w' = trace w @ [Show v]"
    then show ?thesis by (intro exI[of _ "[Show v]"]) simp
  next
    fix p v assume "trace w' = trace w @ [Save p v]"
    then show ?thesis by (intro exI[of _ "[Save p v]"]) simp
  next
    fix p v assume "trace w' = trace w @ [Show v, Save p v]"
    then show ?thesis by (intro exI[of _ "[Show v, Save p v]"]) simp
  qed
qed

lemma interpret_call_cases:
  fixes predict_fn :: "'e predict_fn"
  assumes "interpret_call debug predict_fn normal explanation_to_vis imgs data labels noise_amount
             n_samples split visual save_path w = (res, w')"
  shows "(\<exists>e. res = Inl e
            \<and> smooth_grad debug predict_fn normal data labels noise_amount n_samples split w = (Inl e, w'))
       \<or> (\<exists>avg labels1 i w1 r2 w2.
            smooth_grad debug predict_fn normal data labels noise_amount n_samples split w
              = (Inr (avg, labels1, i), w1)
          \<and> visualize explanation_to_vis imgs i avg visual save_path w1 = (r2, w2)
          \<and> ((\<exists>e. r2 = Inl e \<and> res = Inl e \<and> w' = w2)
               \<or> (\<not> isl r2 \<and> res = Inr avg \<and> w' = w2\<lparr>self_labels := Some labels1\<rparr>)))"
  using assms by (auto simp: interpret_call_def split: prod.splits sum.splits)

text \<open>Unfolding the stages on concrete inputs.\<close>

lemmas run_simps = evaluate_def py_range_def front_chunk_def py_slice_def py_slice_from_def
  slice_bound_def np_repeat_def np_concatenate_def emit_def Let_def

lemmas call_simps = interpret_call_def smooth_grad_def resolve_labels_def reshape1_def
  sample_std_def np_max_def np_min_def flatten3_def make_noised_def shape3_def add4_def add3_def
  visualize_def preprocess_save_path_def py_index_def np_mean0_def mean_entry_def abs_sum0_def

section \<open>Chunk invariance\<close>

text \<open>
  Claim C1. Fix the noised batch, of \<open>n_samples\<close> entries, and the resolved label. If the
  prediction function computes the gradient of each sample from that sample and its label
  alone (on every non-empty batch with as many labels as samples), then for every split
  factor \<open>k\<close> from 1 to \<open>n_samples\<close> the concatenated gradients pair every sample with
  the label, once and in order; they equal those of the unsplit evaluation, and so does
  their mean.
\<close>

theorem chunk_invariance:
  assumes "\<forall>xs ls. xs \<noteq> [] \<longrightarrow> length ls = length xs \<longrightarrow> (\<exists>p. predict_fn xs (Some ls) = Inr (map2 g xs ls, p))"
    and "n_samples = int (length data_noised)" and "1 \<le> k" and "k \<le> n_samples"
  shows "gradients_of (evaluate predict_fn data_noised [l] n_samples k i0 w) =
           Inr (map (\<lambda>x. g x l) data_noised)
       \<and> gradients_of (evaluate predict_fn data_noised [l] n_samples k i0 w) =
           gradients_of (evaluate predict_fn data_noised [l] n_samples 1 i0 w)
       \<and> avg_gradients_of (evaluate predict_fn data_noised [l] n_samples k i0 w) =
           avg_gradients_of (evaluate predict_fn data_noised [l] n_samples 1 i0 w)"
proof -
  have one: "1 \<le> n_samples" using assms(3,4) by simp
  show ?thesis
    using evaluate_indep[OF assms(1,2,3,4), of l i0 w]
          evaluate_indep[OF assms(1,2) order_refl one, of l i0 w]
    by (simp add: gradients_of_def avg_gradients_of_def)
qed

theorem chunk_invariance_witness:
  "gradients_of
     (evaluate
        (\<lambda>xs lo. case lo of
             None \<Rightarrow> Inl ()
           | Some ls \<Rightarrow> if xs = [] then Inl ()
                       else Inr (map2 (\<lambda>x l. map (map (map (\<lambda>v. v * real_of_int l))) x) xs ls, []))
        [[[[1]]], [[[2]]], [[[3]]]] [5] 3 2 0 \<lparr>self_labels = None, rng = (), trace = []\<rparr>)
   = Inr [[[[5]]], [[[10]]], [[[15]]]]"
proof -
  let ?g = "\<lambda>(x::tensor3) (l::label). map (map (map (\<lambda>v. v * real_of_int l))) x"
  let ?pf = "\<lambda>xs lo. case lo of
             None \<Rightarrow> Inl ()
           | Some ls \<Rightarrow> if xs = [] then Inl () else Inr (map2 ?g xs ls, [] :: label list)"
  have h1: "\<forall>xs ls. xs \<noteq> [] \<longrightarrow> length ls = length xs \<longrightarrow>
              (\<exists>p. ?pf xs (Some ls) = Inr (map2 ?g xs ls, p))"
    by simp
  have h2: "(3::int) = int (length [[[[1::real]]], [[[2]]], [[[3]]]])" by simp
  have h3: "(1::int) \<le> 2" and h4: "(2::int) \<le> 3" by simp_all
  from chunk_invariance[OF h1 h2 h3 h4, of 5 0 "\<lparr>self_labels = None, rng = (), trace = []\<rparr>",
        THEN conjunct1]
  show ?thesis by simp
qed

section \<open>Chunking policy\<close>

text \<open>
  Claim C3. Let the noised batch hold \<open>n_samples\<close> entries and let the evaluation return.
  For \<open>2 \<le> split \<le> n_samples\<close> the prediction function is called exactly \<open>split\<close>
  times: \<open>split - 1\<close> times on the consecutive slices \<open>front_chunk\<close> of exactly
  \<open>chunk = n_samples div split\<close> samples, in index order, then once on the remaining
  \<open>n_samples - chunk * (split - 1)\<close> samples, at least \<open>chunk\<close> of them; the slices
  concatenate to the batch. For \<open>split = 1\<close> there is one call, on the whole batch.
\<close>

theorem chunking_policy:
  assumes "n_samples = int (length data_noised)"
    and "split = 1 \<or> (2 \<le> split \<and> split \<le> n_samples)"
    and "evaluate predict_fn data_noised [l] n_samples split i0 w = (Inr r, w')"
  shows "let chunk = n_samples div split;
             fronts = map (front_chunk data_noised chunk) (py_range (split - 1));
             rest = py_slice_from data_noised (chunk * (split - 1))
         in trace w' = trace w @ map (\<lambda>b. Predict b (Some (replicate (length b) l))) (fronts @ [rest])
          \<and> length (fronts @ [rest]) = nat split
          \<and> (\<forall>b\<in>set fronts. length b = nat chunk)
          \<and> length rest = nat (n_samples - chunk * (split - 1))
          \<and> chunk \<le> n_samples - chunk * (split - 1)
          \<and> concat (fronts @ [rest]) = data_noised
          \<and> (split = 1 \<longrightarrow> fronts @ [rest] = [data_noised])"
proof (cases "split = 1")
  case True
  have n0: "0 \<le> n_samples" using assms(1) by simp
  have "w' = emit (Predict data_noised (Some (replicate (nat n_samples) l))) w"
    using evaluate_unsplit(1)[of split n_samples predict_fn data_noised l i0 w] True n0 assms(3) by simp
  then show ?thesis using True assms(1)
    by (simp add: Let_def py_range_def py_slice_from_nonneg)
next
  case False
  then have s: "1 < split" and sn: "split \<le> n_samples" using assms(2) by auto
  have n0: "0 \<le> n_samples" using assms(1) by simp
  define c where "c = n_samples div split"
  have c0: "0 \<le> c" unfolding c_def using n0 s by (rule chunk_nonneg)
  have fl: "\<forall>i\<in>set (py_range (split - 1)). length (front_chunk data_noised c i) = nat c"
    unfolding c_def using length_front_chunk[OF n0 s assms(1)] by blast
  have tl: "length (py_slice_from data_noised (c * (split - 1))) = nat (n_samples - c * (split - 1))"
    unfolding c_def using length_tail_chunk[OF n0 s assms(1)] by simp
  have tr: "trace w' = trace w
      @ map (\<lambda>i. Predict (front_chunk data_noised c i) (Some (replicate (nat c) l))) (py_range (split - 1))
      @ [Predict (py_slice_from data_noised (c * (split - 1)))
           (Some (replicate (nat (n_samples - c * (split - 1))) l))]"
    using evaluate_split_Inr(1)[OF s n0 assms(3)] by (simp add: c_def)
  have ge: "c \<le> n_samples - c * (split - 1)" unfolding c_def using tail_ge_chunk[OF n0 s] .
  have cat: "concat (map (front_chunk data_noised c) (py_range (split - 1))) @ py_slice_from data_noised (c * (split - 1)) = data_noised"
    using front_chunks_then_tail[OF c0, of "split - 1" data_noised] s by simp
  have evs: "map (\<lambda>i. Predict (front_chunk data_noised c i) (Some (replicate (nat c) l))) (py_range (split - 1))
      = map (\<lambda>b. Predict b (Some (replicate (length b) l))) (map (front_chunk data_noised c) (py_range (split - 1)))"
    using fl by (simp add: comp_def)
  show ?thesis
    unfolding Let_def c_def[symmetric]
    using tr evs tl ge cat fl s False by simp
qed

theorem chunking_policy_witness:
  "trace (snd (evaluate (\<lambda>xs lo. Inr (xs, []) :: unit + tensor3 list \<times> label list)
            [[[[1]]], [[[2]]], [[[3]]], [[[4]]], [[[5]]]] [7] 5 2 0
            \<lparr>self_labels = None, rng = (), trace = [] :: unit event list\<rparr>))
     = [Predict [[[[1]]], [[[2]]]] (Some [7, 7]),
        Predict [[[[3]]], [[[4]]], [[[5]]]] (Some [7, 7, 7])]
   \<and> trace (snd (evaluate (\<lambda>xs lo. Inr (xs, []) :: unit + tensor3 list \<times> label list)
            [[[[1]]], [[[2]]], [[[3]]], [[[4]]], [[[5]]]] [7] 5 1 0
            \<lparr>self_labels = None, rng = (), trace = [] :: unit event list\<rparr>))
     = [Predict [[[[1]]], [[[2]]], [[[3]]], [[[4]]], [[[5]]]] (Some [7, 7, 7, 7, 7])]"
proof -
  let ?pf = "\<lambda>xs lo. Inr (xs, []) :: unit + tensor3 list \<times> label list"
  let ?dn = "[[[[1]]], [[[2]]], [[[3]]], [[[4]]], [[[5::real]]]]"
  let ?w = "\<lparr>self_labels = None, rng = (), trace = [] :: unit event list\<rparr>"
  have h1: "(5::int) = int (length ?dn)" by simp
  have h2: "(2::int) = 1 \<or> (2 \<le> (2::int) \<and> (2::int) \<le> 5)" by simp
  have h2': "(1::int) = 1 \<or> (2 \<le> (1::int) \<and> (1::int) \<le> 5)" by simp
  have ev2: "evaluate ?pf ?dn [7] 5 2 0 ?w = (Inr (fst (projr (fst (evaluate ?pf ?dn [7] 5 2 0 ?w))), snd (projr (fst (evaluate ?pf ?dn [7] 5 2 0 ?w)))), snd (evaluate ?pf ?dn [7] 5 2 0 ?w))"
    by (simp add: run_simps)
  have ev1: "evaluate ?pf ?dn [7] 5 1 0 ?w = (Inr (fst (projr (fst (evaluate ?pf ?dn [7] 5 1 0 ?w))), snd (projr (fst (evaluate ?pf ?dn [7] 5 1 0 ?w)))), snd (evaluate ?pf ?dn [7] 5 1 0 ?w))"
    by (simp add: run_simps)
  from chunking_policy[OF h1 h2 ev2] chunking_policy[OF h1 h2' ev1]
  show ?thesis by (simp add: run_simps eval_nat_numeral)
qed

section \<open>Label broadcast\<close>

text \<open>
  Claim C4. Let the noised batch hold \<open>n_samples\<close> entries. The planned batches are the
  front chunks followed by the final chunk when \<open>1 < split\<close>, and the whole batch otherwise.
  Whatever its outcome, the evaluation calls the prediction function on the first \<open>k\<close>
  planned batches in order, for some \<open>k \<ge> 1\<close>, each time with the resolved label repeated
  once per sample of that batch. Every call before the last one returned, the evaluation
  fails exactly when the last call raised, and an evaluation that returns has made all the
  planned calls. The label is repeated \<open>chunk = n_samples div split\<close> times for a front
  chunk, \<open>n_samples - chunk * (split - 1)\<close> times for the final chunk, and \<open>n_samples\<close>
  times when the batch is not split.
\<close>

theorem label_broadcast:
  assumes "n_samples = int (length data_noised)"
  shows "let chunk = n_samples div split;
             fronts = map (front_chunk data_noised chunk) (py_range (split - 1));
             rest = py_slice_from data_noised (chunk * (split - 1));
             batches = (if 1 < split then fronts @ [rest] else [data_noised]);
             call = (\<lambda>b. predict_fn b (Some (replicate (length b) l)));
             run = evaluate predict_fn data_noised [l] n_samples split i0 w
         in (\<exists>k. 1 \<le> k \<and> k \<le> length batches
                \<and> trace (snd run)
                    = trace w @ map (\<lambda>b. Predict b (Some (replicate (length b) l))) (take k batches)
                \<and> (\<forall>j<k - 1. \<not> isl (call (batches ! j)))
                \<and> (isl (fst run) \<longleftrightarrow> isl (call (batches ! (k - 1))))
                \<and> (\<not> isl (fst run) \<longrightarrow> k = length batches))
          \<and> (1 < split \<longrightarrow> length batches = nat split
                             \<and> (\<forall>b\<in>set fronts. length b = nat chunk)
                             \<and> length rest = nat (n_samples - chunk * (split - 1)))
          \<and> (\<not> 1 < split \<longrightarrow> length data_noised = nat n_samples)"
proof -
  define c where "c = n_samples div split"
  define batches where "batches = (if 1 < split
       then map (front_chunk data_noised c) (py_range (split - 1)) @ [py_slice_from data_noised (c * (split - 1))]
       else [data_noised])"
  let ?run = "evaluate predict_fn data_noised [l] n_samples split i0 w"
  let ?call = "\<lambda>b. predict_fn b (Some (replicate (length b) l))"
  have n0: "0 \<le> n_samples" using assms by simp
  have b: "batches = (if 1 < split
               then map (front_chunk data_noised (n_samples div split)) (py_range (split - 1))
                      @ [py_slice_from data_noised (n_samples div split * (split - 1))]
               else [data_noised])"
    by (simp add: batches_def c_def)
  from evaluate_calls[OF assms b, of predict_fn l i0 w] obtain k where k:
    "1 \<le> k" "k \<le> length batches"
    "trace (snd ?run) = trace w @ map (\<lambda>b. Predict b (Some (replicate (length b) l))) (take k batches)"
    "\<forall>j<k - 1. \<not> isl (?call (batches ! j))"
    "\<forall>e. fst ?run = Inl e \<longleftrightarrow> (\<exists>e'. ?call (batches ! (k - 1)) = Inl e' \<and> e = PredictFnError e')"
    "\<not> isl (fst ?run) \<longrightarrow> k = length batches"
    by blast
  have iff: "isl (fst ?run) \<longleftrightarrow> isl (?call (batches ! (k - 1)))"
  proof
    assume "isl (fst ?run)"
    then obtain e where "fst ?run = Inl e" by (cases "fst ?run") auto
    with k(5) show "isl (?call (batches ! (k - 1)))" by auto
  next
    assume "isl (?call (batches ! (k - 1)))"
    then obtain e' where "?call (batches ! (k - 1)) = Inl e'" by (cases "?call (batches ! (k - 1))") auto
    with k(5) have "fst ?run = Inl (PredictFnError e')" by blast
    then show "isl (fst ?run)" by simp
  qed
  have first: "\<exists>k. 1 \<le> k \<and> k \<le> length batches
                \<and> trace (snd ?run)
                    = trace w @ map (\<lambda>b. Predict b (Some (replicate (length b) l))) (take k batches)
                \<and> (\<forall>j<k - 1. \<not> isl (?call (batches ! j)))
                \<and> (isl (fst ?run) \<longleftrightarrow> isl (?call (batches ! (k - 1))))
                \<and> (\<not> isl (fst ?run) \<longrightarrow> k = length batches)"
    using k(1,2,3,4,6) iff by blast
  have second: "1 < split \<longrightarrow> length batches = nat split
                 \<and> (\<forall>b\<in>set (map (front_chunk data_noised c) (py_range (split - 1))). length b = nat c)
                 \<and> length (py_slice_from data_noised (c * (split - 1))) = nat (n_samples - c * (split - 1))"
  proof
    assume s: "1 < split"
    have "length batches = nat split" using s by (simp add: batches_def nat_diff_distrib)
    moreover have "\<forall>b\<in>set (map (front_chunk data_noised c) (py_range (split - 1))). length b = nat c"
      unfolding c_def using length_front_chunk[OF n0 s assms] by simp
    moreover have "length (py_slice_from data_noised (c * (split - 1))) = nat (n_samples - c * (split - 1))"
      unfolding c_def using length_tail_chunk[OF n0 s assms] by simp
    ultimately show "length batches = nat split
                 \<and> (\<forall>b\<in>set (map (front_chunk data_noised c) (py_range (split - 1))). length b = nat c)
                 \<and> length (py_slice_from data_noised (c * (split - 1))) = nat (n_samples - c * (split - 1))"
      by blast
  qed
  have third: "\<not> 1 < split \<longrightarrow> length data_noised = nat n_samples" using assms by simp
  show ?thesis
    unfolding Let_def c_def[symmetric] batches_def[symmetric]
    using first second third by (intro conjI)
qed

theorem label_broadcast_witness:
  "trace (snd (evaluate (\<lambda>xs lo. if length xs = 2 then Inr (xs, []) else Inl ())
            [[[[1]]], [[[2]]], [[[3]]], [[[4]]], [[[5]]]] [7] 5 2 0
            \<lparr>self_labels = None, rng = (), trace = [] :: unit event list\<rparr>))
     = [Predict [[[[1]]], [[[2]]]] (Some [7, 7]),
        Predict [[[[3]]], [[[4]]], [[[5]]]] (Some [7, 7, 7])]
   \<and> isl (fst (evaluate (\<lambda>xs lo. if length xs = 2 then Inr (xs, []) else Inl ())
            [[[[1]]], [[[2]]], [[[3]]], [[[4]]], [[[5]]]] [7] 5 2 0
            \<lparr>self_labels = None, rng = (), trace = [] :: unit event list\<rparr>))
   \<and> trace (snd (evaluate (\<lambda>xs lo. if length xs = 2 then Inr (xs, []) else Inl ())
            [[[[1]]], [[[2]]], [[[3]]], [[[4]]], [[[5]]]] [7] 5 1 0
            \<lparr>self_labels = None, rng = (), trace = [] :: unit event list\<rparr>))
     = [Predict [[[[1]]], [[[2]]], [[[3]]], [[[4]]], [[[5]]]] (Some [7, 7, 7, 7, 7])]"
proof -
  let ?pf = "\<lambda>(xs :: tensor3 list) (lo :: label list option).
               if length xs = 2 then Inr (xs, [] :: label list) else Inl ()"
  let ?dn = "[[[[1]]], [[[2]]], [[[3]]], [[[4]]], [[[5::real]]]]"
  let ?w = "\<lparr>self_labels = None, rng = (), trace = [] :: unit event list\<rparr>"
  let ?b0 = "[[[[1]]], [[[2::real]]]]"
  let ?b1 = "[[[[3]]], [[[4]]], [[[5::real]]]]"
  have h1: "(5::int) = int (length ?dn)" by simp
  have B2: "(if (1::int) < 2
       then map (front_chunk ?dn (5 div 2)) (py_range (2 - 1)) @ [py_slice_from ?dn (5 div 2 * (2 - 1))]
       else [?dn]) = [?b0, ?b1]"
    by (simp add: py_range_def front_chunk_def py_slice_def py_slice_from_def slice_bound_def)
  have B1: "(if (1::int) < 1
       then map (front_chunk ?dn (5 div 1)) (py_range (1 - 1)) @ [py_slice_from ?dn (5 div 1 * (1 - 1))]
       else [?dn]) = [?dn]"
    by simp
  let ?P = "\<lambda>b. Predict b (Some (replicate (length b) 7)) :: unit event"
  let ?run2 = "evaluate ?pf ?dn [7] 5 2 0 ?w"
  let ?run1 = "evaluate ?pf ?dn [7] 5 1 0 ?w"
  note lb2 = label_broadcast[OF h1, of 2 ?pf 7 0 ?w, unfolded Let_def B2, THEN conjunct1]
  then obtain k where k1: "1 \<le> k" and k2: "k \<le> length [?b0, ?b1]"
    and tr: "trace (snd ?run2) = trace ?w @ map ?P (take k [?b0, ?b1])"
    and iff: "isl (fst ?run2) \<longleftrightarrow>
               isl (?pf ([?b0, ?b1] ! (k - 1)) (Some (replicate (length ([?b0, ?b1] ! (k - 1))) 7)))"
    and full: "\<not> isl (fst ?run2) \<longrightarrow> k = length [?b0, ?b1]"
    by blast
  have k2': "k \<le> 2" using k2 by simp
  have "k = 2"
  proof (rule ccontr)
    assume "k \<noteq> 2"
    then have k1': "k = 1" using k1 k2' by arith
    have "\<not> isl (fst ?run2)" using iff unfolding k1' by simp
    then have "k = length [?b0, ?b1]" using full by blast
    then show False using k1' by simp
  qed
  then have tk: "take k [?b0, ?b1] = [?b0, ?b1]" and nk: "[?b0, ?b1] ! (k - 1) = ?b1" by simp_all
  have a: "trace (snd ?run2) = [Predict ?b0 (Some [7, 7]), Predict ?b1 (Some [7, 7, 7])]"
    using tr unfolding tk by (simp add: eval_nat_numeral)
  have a': "isl (fst ?run2)" using iff unfolding nk by simp
  note lb1 = label_broadcast[OF h1, of 1 ?pf 7 0 ?w, unfolded Let_def B1, THEN conjunct1]
  then obtain k' where k1: "1 \<le> k'" and k2: "k' \<le> length [?dn]"
    and tr': "trace (snd ?run1) = trace ?w @ map ?P (take k' [?dn])"
    by blast
  have "k' = 1" using k1 k2 by simp
  then have tk': "take k' [?dn] = [?dn]" by simp
  have b: "trace (snd ?run1) = [Predict ?dn (Some [7, 7, 7, 7, 7])]"
    using tr' unfolding tk' by (simp add: eval_nat_numeral)
  from a a' b show ?thesis by (intro conjI)
qed

section \<open>Fewer samples than chunks\<close>

text \<open>
  Claim C7 says that for \<open>n_samples < split\<close> the empty leading chunks are skipped. The
  loop of lines 99-101 has no such test: with one sample and \<open>split = 3\<close> it calls the
  prediction function twice on an empty batch with an empty label array before the call
  on the sample.
\<close>

theorem empty_chunks_counterexample:
  "trace (snd (evaluate (\<lambda>xs lo. Inr (xs, []) :: unit + tensor3 list \<times> label list)
            [[[[1]]]] [7] 1 3 0 \<lparr>self_labels = None, rng = (), trace = [] :: unit event list\<rparr>))
     = [Predict [] (Some []), Predict [] (Some []), Predict [[[[1]]]] (Some [7])]"
  by (simp add: run_simps eval_nat_numeral)

text \<open>
  Claim C7 as amended. For \<open>n_samples < split\<close> (and \<open>split \<ge> 2\<close>) the chunk size is 0 and
  nothing is skipped: the first call is on an empty batch with an empty label array. If
  the prediction function raises on it, the evaluation fails with that exception after
  this one call, and no sample is evaluated. Otherwise \<open>split - 1\<close> such calls are made,
  and then one call on all \<open>n_samples\<close> samples with the label repeated \<open>n_samples\<close>
  times.
\<close>

theorem empty_chunks_evaluated:
  assumes "n_samples = int (length data_noised)" and "1 < split" and "n_samples < split"
  shows "n_samples div split = 0
       \<and> (\<forall>e. predict_fn [] (Some []) = Inl e \<longrightarrow>
             evaluate predict_fn data_noised [l] n_samples split i0 w
               = (Inl (PredictFnError e), emit (Predict [] (Some [])) w))
       \<and> (\<not> isl (predict_fn [] (Some [])) \<longrightarrow>
             trace (snd (evaluate predict_fn data_noised [l] n_samples split i0 w))
               = trace w @ replicate (nat (split - 1)) (Predict [] (Some []))
                   @ [Predict data_noised (Some (replicate (length data_noised) l))])"
proof -
  have n0: "0 \<le> n_samples" using assms(1) by simp
  have c: "n_samples div split = 0" using n0 assms(3) by simp
  have fr: "\<And>i. front_chunk data_noised 0 i = []"
    by (simp add: front_chunk_def py_slice_def slice_bound_def)
  have raised: "\<forall>e. predict_fn [] (Some []) = Inl e \<longrightarrow>
             evaluate predict_fn data_noised [l] n_samples split i0 w
               = (Inl (PredictFnError e), emit (Predict [] (Some [])) w)"
  proof (intro allI impI)
    fix e assume e: "predict_fn [] (Some []) = Inl e"
    have "py_range (split - 1) \<noteq> []" using assms(2) by (simp add: py_range_def)
    then obtain i js where js: "py_range (split - 1) = i # js" by (cases "py_range (split - 1)") auto
    have "chunk_loop predict_fn data_noised [l] 0 (i # js) [] w
            = (Inl (PredictFnError e), emit (Predict [] (Some [])) w)"
      by (simp add: np_repeat_def fr e)
    then show "evaluate predict_fn data_noised [l] n_samples split i0 w
               = (Inl (PredictFnError e), emit (Predict [] (Some [])) w)"
      by (simp add: evaluate_def assms(2) c js)
  qed
  have returned: "\<not> isl (predict_fn [] (Some [])) \<longrightarrow>
             trace (snd (evaluate predict_fn data_noised [l] n_samples split i0 w))
               = trace w @ replicate (nat (split - 1)) (Predict [] (Some []))
                   @ [Predict data_noised (Some (replicate (length data_noised) l))]"
  proof
    assume "\<not> isl (predict_fn [] (Some []))"
    then obtain g p where gp: "predict_fn [] (Some []) = Inr (g, p)"
      by (cases "predict_fn [] (Some [])") auto
    have all: "\<forall>i\<in>set (py_range (split - 1)).
        \<exists>p. predict_fn (front_chunk data_noised 0 i) (Some (replicate (nat 0) l)) = Inr ((\<lambda>_. g) i, p)"
      by (simp add: fr gp)
    have loop: "chunk_loop predict_fn data_noised [l] 0 (py_range (split - 1)) [] w =
        (Inr ([] @ map (\<lambda>_. g) (py_range (split - 1))),
         w\<lparr>trace := trace w @ map (\<lambda>i. Predict (front_chunk data_noised 0 i) (Some (replicate (nat 0) l)))
                                 (py_range (split - 1))\<rparr>)"
      using order_refl all by (rule chunk_loop_all_ok)
    have rep: "np_repeat [l] n_samples = Inr (replicate (length data_noised) l)"
      using assms(1) by (simp add: np_repeat_single)
    have "snd (evaluate predict_fn data_noised [l] n_samples split i0 w)
        = emit (Predict data_noised (Some (replicate (length data_noised) l)))
            (w\<lparr>trace := trace w @ map (\<lambda>i. Predict (front_chunk data_noised 0 i) (Some (replicate (nat 0) l)))
                                 (py_range (split - 1))\<rparr>)"
      by (cases "predict_fn data_noised (Some (replicate (length data_noised) l))")
         (auto simp: evaluate_def assms(2) c loop rep py_slice_from_def slice_bound_def Let_def
               np_concatenate_def split: prod.splits)
    then show "trace (snd (evaluate predict_fn data_noised [l] n_samples split i0 w))
               = trace w @ replicate (nat (split - 1)) (Predict [] (Some []))
                   @ [Predict data_noised (Some (replicate (length data_noised) l))]"
      by (simp add: fr map_replicate_const)
  qed
  from c raised returned show ?thesis by (intro conjI)
qed

theorem empty_chunks_evaluated_witness:
  "trace (snd (evaluate (\<lambda>xs lo. Inr (xs, []) :: unit + tensor3 list \<times> label list)
            [[[[1]]], [[[2]]]] [7] 2 4 0 \<lparr>self_labels = None, rng = (), trace = [] :: unit event list\<rparr>))
     = [Predict [] (Some []), Predict [] (Some []), Predict [] (Some []),
        Predict [[[[1]]], [[[2]]]] (Some [7, 7])]
   \<and> evaluate (\<lambda>xs lo. if xs = [] then Inl () else Inr (xs, []))
            [[[[1]]]] [7] 1 3 0 \<lparr>self_labels = None, rng = (), trace = [] :: unit event list\<rparr>
     = (Inl (PredictFnError ()),
        \<lparr>self_labels = None, rng = (), trace = [Predict [] (Some [])]\<rparr>)"
proof -
  let ?ok = "\<lambda>xs lo. Inr (xs, []) :: unit + tensor3 list \<times> label list"
  let ?bad = "\<lambda>(xs :: tensor3 list) (lo :: label list option).
                if xs = [] then Inl () else Inr (xs, [] :: label list)"
  let ?dn = "[[[[1]]], [[[2::real]]]]"
  let ?w = "\<lparr>self_labels = None, rng = (), trace = [] :: unit event list\<rparr>"
  have h1: "(2::int) = int (length ?dn)" and h2: "(1::int) < 4" and h3: "(2::int) < 4" by simp_all
  have g1: "(1::int) = int (length [[[[1::real]]]])" and g2: "(1::int) < 3" by simp_all
  from empty_chunks_evaluated[OF h1 h2 h3, of ?ok 7 0 ?w]
  have a: "trace (snd (evaluate ?ok ?dn [7] 2 4 0 ?w))
     = [Predict [] (Some []), Predict [] (Some []), Predict [] (Some []), Predict ?dn (Some [7, 7])]"
    by (simp add: eval_nat_numeral)
  from empty_chunks_evaluated[OF g1 g2 g2, of ?bad 7 0 ?w]
  have b: "evaluate ?bad [[[[1]]]] [7] 1 3 0 ?w
     = (Inl (PredictFnError ()), \<lparr>self_labels = None, rng = (), trace = [Predict [] (Some [])]\<rparr>)"
    by (simp add: emit_def)
  from a b show ?thesis by (rule conjI)
qed

section \<open>Batch-size enforcement\<close>

text \<open>
  Claim C5 says that every call on two or more samples fails before anything else is
  done. The check of line 66 is an \<^verbatim>\<open>assert\<close>: when assertions are off (\<^verbatim>\<open>python -O\<close>), a call
  on two samples with one label is not rejected. It draws noise for both samples, calls
  the prediction function on both, returns the mean over both and assigns \<^verbatim>\<open>self.labels\<close>.
\<close>

theorem batch_size_counterexample:
  "interpret_call False (\<lambda>xs lo. Inr (xs, []) :: unit + tensor3 list \<times> label list)
       (\<lambda>s sz r. ([[[[0]]]], r :: unit)) (\<lambda>img sal. ()) [(), ()] [[[[1]]], [[[2]]]] (Some [7])
       (1/10) 1 1 False None \<lparr>self_labels = None, rng = (), trace = []\<rparr>
     = (Inr [[[[3/2]]]],
        \<lparr>self_labels = Some [7], rng = (),
         trace = [Draw 0 [1, 1, 1, 1], Draw 0 [1, 1, 1, 1], Predict [[[[1]]], [[[2]]]] (Some [7])]\<rparr>)"
  by (simp add: call_simps run_simps)

text \<open>
  Claim C5 as amended. With assertions on (Python's default), a call whose preprocessed
  input does not hold exactly one sample, so in particular one that holds two or more,
  fails at line 66 with Python's \<^verbatim>\<open>AssertionError\<close>; the code defines no error class of its
  own. The state is the one the call started in: no label was resolved, no noise drawn,
  the prediction function never called, nothing shown or saved, \<^verbatim>\<open>self.labels\<close> not assigned.
\<close>

theorem batch_size_enforced:
  assumes "debug" and "length data \<noteq> 1"
  shows "interpret_call debug predict_fn normal explanation_to_vis imgs data labels noise_amount
           n_samples split visual save_path w = (Inl AssertionError, w)"
  using assms by (simp add: interpret_call_def smooth_grad_def)

theorem batch_size_enforced_witness:
  "interpret_call True (\<lambda>xs lo. Inr (xs, []) :: unit + tensor3 list \<times> label list)
       (\<lambda>s sz r. ([[[[0]]]], r :: unit)) (\<lambda>img sal. ()) [(), ()] [[[[1]]], [[[2]]]] (Some [7])
       (1/10) 1 1 False None \<lparr>self_labels = None, rng = (), trace = []\<rparr>
     = (Inl AssertionError, \<lparr>self_labels = None, rng = (), trace = []\<rparr>)"
  using batch_size_enforced[of True "[[[[1]]], [[[2]]]]"] by simp

section \<open>The stored labels\<close>

text \<open>
  Claim C9. A call that returns has assigned \<^verbatim>\<open>self.labels\<close>: the attribute then holds an
  array of exactly one label, the one given by the caller or, when none was given, the
  prediction of the prediction function for the input sample. A call that raises leaves
  the attribute as it was.
\<close>

theorem labels_stored:
  fixes predict_fn :: "'e predict_fn"
  assumes "interpret_call debug predict_fn normal explanation_to_vis imgs data labels noise_amount
             n_samples split visual save_path w = (res, w')"
  shows "(\<forall>r. res = Inr r \<longrightarrow>
            (\<exists>l. self_labels w' = Some [l]
                \<and> (labels = None \<longrightarrow> (\<exists>g. predict_fn data None = Inr (g, [l])))
                \<and> (\<forall>given. labels = Some given \<longrightarrow> given = [l])))
       \<and> (isl res \<longrightarrow> self_labels w' = self_labels w)"
proof -
  from interpret_call_cases[OF assms] consider
    (early) e where "res = Inl e"
      "smooth_grad debug predict_fn normal data labels noise_amount n_samples split w = (Inl e, w')"
  | (late) avg labels1 i w1 r2 w2 where
      "smooth_grad debug predict_fn normal data labels noise_amount n_samples split w
         = (Inr (avg, labels1, i), w1)"
      "visualize explanation_to_vis imgs i avg visual save_path w1 = (r2, w2)"
      "(\<exists>e. r2 = Inl e \<and> res = Inl e \<and> w' = w2)
         \<or> (\<not> isl r2 \<and> res = Inr avg \<and> w' = w2\<lparr>self_labels := Some labels1\<rparr>)"
    by blast
  then show ?thesis
  proof cases
    case early
    from smooth_grad_logged[OF early(2)] have "self_labels w' = self_labels w"
      by (simp add: logged_def)
    then show ?thesis using early(1) by simp
  next
    case late
    from smooth_grad_logged[OF late(1)] have s1: "self_labels w1 = self_labels w"
      by (simp add: logged_def)
    have s2: "self_labels w2 = self_labels w1" using late(2) by (rule visualize_effects(1))
    from smooth_grad_Inr[OF late(1)] obtain w0 where
      "resolve_labels predict_fn data labels w = (Inr labels1, w0)" by blast
    from resolve_labels_Inr[OF this] obtain l where l: "labels1 = [l]"
      "labels = None \<longrightarrow> (\<exists>g. predict_fn data None = Inr (g, [l]))"
      "\<forall>given. labels = Some given \<longrightarrow> given = [l]"
      by blast
    from late(3) show ?thesis
    proof
      assume "\<exists>e. r2 = Inl e \<and> res = Inl e \<and> w' = w2"
      then show ?thesis using s1 s2 by auto
    next
      assume "\<not> isl r2 \<and> res = Inr avg \<and> w' = w2\<lparr>self_labels := Some labels1\<rparr>"
      then show ?thesis using l by auto
    qed
  qed
qed

theorem labels_stored_witness:
  "self_labels (snd (interpret_call True (\<lambda>xs lo. Inr (xs, [7]) :: unit + tensor3 list \<times> label list)
       (\<lambda>s sz r. ([[[[0]]]], r :: unit)) (\<lambda>img sal. ()) [()] [[[[1]]]] None (1/10) 2 2 False None
       \<lparr>self_labels = None, rng = (), trace = []\<rparr>)) = Some [7]"
proof -
  let ?pf = "\<lambda>xs lo. Inr (xs, [7]) :: unit + tensor3 list \<times> label list"
  let ?run = "interpret_call True ?pf (\<lambda>s sz r. ([[[[0]]]], r :: unit)) (\<lambda>img sal. ()) [()]
       [[[[1]]]] None (1/10) 2 2 False None \<lparr>self_labels = None, rng = (), trace = [] :: unit event list\<rparr>"
  have run: "?run = (fst ?run, snd ?run)" by simp
  have ok: "fst ?run = Inr [[[[1]]]]" by (simp add: call_simps run_simps eval_nat_numeral)
  from labels_stored[OF run, THEN conjunct1] ok
  obtain l where l: "self_labels (snd ?run) = Some [l]" "\<exists>g. ?pf [[[[1]]]] None = Inr (g, [l])"
    by blast
  from l(2) have "l = 7" by simp
  with l(1) show ?thesis by simp
qed

section \<open>The index of the displayed image\<close>

text \<open>
  Claim C10. Let the call reach line 111 with the averaged gradients, and let a display or
  a save be requested for the one image of the call. The index \<^verbatim>\<open>i\<close> used in \<^verbatim>\<open>imgs[i]\<close> and
  \<^verbatim>\<open>save_path[i]\<close> is what the last loop left: \<open>split - 2\<close> when \<open>1 < split\<close>, and
  \<open>n_samples - 1\<close> otherwise. For \<open>split > 2\<close>, and for \<open>split \<le> 1\<close> with \<open>n_samples > 1\<close>, the
  index is not 0 and the call fails with \<^verbatim>\<open>IndexError\<close>, nothing shown or saved and
  \<^verbatim>\<open>self.labels\<close> not assigned. In the remaining cases, \<open>split = 2\<close> or \<open>split \<le> 1\<close> with one
  sample, the index is 0, the call returns the averaged gradients, and the image is shown
  and saved as requested.
\<close>

theorem leftover_loop_index:
  fixes predict_fn :: "'e predict_fn"
  assumes "smooth_grad debug predict_fn normal data labels noise_amount n_samples split w
             = (Inr (avg_gradients, labels1, i), w1)"
    and "length imgs = 1" and "visual \<or> save_path \<noteq> None"
  shows "i = (if 1 < split then split - 2 else n_samples - 1)
       \<and> 1 \<le> n_samples
       \<and> (2 < split \<or> (split \<le> 1 \<and> 1 < n_samples) \<longrightarrow>
            i \<noteq> 0
          \<and> interpret_call debug predict_fn normal explanation_to_vis imgs data labels noise_amount
               n_samples split visual save_path w = (Inl IndexError, w1))
       \<and> (split = 2 \<or> (split \<le> 1 \<and> n_samples = 1) \<longrightarrow>
            i = 0
          \<and> fst (interpret_call debug predict_fn normal explanation_to_vis imgs data labels
                    noise_amount n_samples split visual save_path w) = Inr avg_gradients
          \<and> trace (snd (interpret_call debug predict_fn normal explanation_to_vis imgs data labels
                    noise_amount n_samples split visual save_path w))
              = trace w1
                @ (if visual
                   then [Show (explanation_to_vis (imgs ! 0) (abs_sum0 (avg_gradients ! 0)))] else [])
                @ (case save_path of
                     None \<Rightarrow> []
                   | Some p \<Rightarrow> [Save p (explanation_to_vis (imgs ! 0) (abs_sum0 (avg_gradients ! 0)))]))"
proof -
  note sg = assms(1)
  have n1: "1 \<le> n_samples" and i: "i = (if 1 < split then split - 2 else n_samples - 1)"
    and la: "length avg_gradients = 1"
    using smooth_grad_samples[OF sg] by simp_all
  have bad: "i \<noteq> 0 \<Longrightarrow>
      visualize explanation_to_vis imgs i avg_gradients visual save_path w1
        = (Inl IndexError :: 'e error + unit, w1)"
  proof -
    assume "i \<noteq> 0"
    then have "1 \<le> i" using i n1 by (auto split: if_splits)
    then have "py_index imgs i = (Inl IndexError :: 'e error + _)"
      using assms(2) by (simp add: py_index_def)
    then show ?thesis using assms(3) by (auto simp: visualize_def Let_def)
  qed
  have good: "i = 0 \<Longrightarrow>
      fst (visualize explanation_to_vis imgs i avg_gradients visual save_path w1)
        = (Inr () :: 'e error + unit)
    \<and> trace (snd (visualize explanation_to_vis imgs i avg_gradients visual save_path w1
                     :: ('e error + unit) \<times> _))
        = trace w1
          @ (if visual
             then [Show (explanation_to_vis (imgs ! 0) (abs_sum0 (avg_gradients ! 0)))] else [])
          @ (case save_path of
               None \<Rightarrow> []
             | Some p \<Rightarrow> [Save p (explanation_to_vis (imgs ! 0) (abs_sum0 (avg_gradients ! 0)))])"
    using assms(2,3) la
    by (auto simp: visualize_def Let_def py_index_def preprocess_save_path_def split: option.splits)
  have c3: "2 < split \<or> (split \<le> 1 \<and> 1 < n_samples) \<longrightarrow>
            i \<noteq> 0
          \<and> interpret_call debug predict_fn normal explanation_to_vis imgs data labels noise_amount
               n_samples split visual save_path w = (Inl IndexError, w1)"
  proof
    assume "2 < split \<or> (split \<le> 1 \<and> 1 < n_samples)"
    then have i0: "i \<noteq> 0" using i by auto
    then show "i \<noteq> 0
          \<and> interpret_call debug predict_fn normal explanation_to_vis imgs data labels noise_amount
               n_samples split visual save_path w = (Inl IndexError, w1)"
      by (simp add: interpret_call_def sg bad[OF i0])
  qed
  have c4: "split = 2 \<or> (split \<le> 1 \<and> n_samples = 1) \<longrightarrow>
            i = 0
          \<and> fst (interpret_call debug predict_fn normal explanation_to_vis imgs data labels
                    noise_amount n_samples split visual save_path w) = Inr avg_gradients
          \<and> trace (snd (interpret_call debug predict_fn normal explanation_to_vis imgs data labels
                    noise_amount n_samples split visual save_path w))
              = trace w1
                @ (if visual
                   then [Show (explanation_to_vis (imgs ! 0) (abs_sum0 (avg_gradients ! 0)))] else [])
                @ (case save_path of
                     None \<Rightarrow> []
                   | Some p \<Rightarrow> [Save p (explanation_to_vis (imgs ! 0) (abs_sum0 (avg_gradients ! 0)))])"
  proof
    assume "split = 2 \<or> (split \<le> 1 \<and> n_samples = 1)"
    then have i0: "i = 0" using i by auto
    obtain r2 :: "'e error + unit" and w2
      where vis: "visualize explanation_to_vis imgs i avg_gradients visual save_path w1 = (r2, w2)"
      by (cases "visualize explanation_to_vis imgs i avg_gradients visual save_path w1
                   :: ('e error + unit) \<times> _")
    note g = good[OF i0, unfolded vis fst_conv snd_conv]
    have r2: "r2 = Inr ()" using g by (rule conjunct1)
    have t2: "trace w2 = trace w1
          @ (if visual
             then [Show (explanation_to_vis (imgs ! 0) (abs_sum0 (avg_gradients ! 0)))] else [])
          @ (case save_path of
               None \<Rightarrow> []
             | Some p \<Rightarrow> [Save p (explanation_to_vis (imgs ! 0) (abs_sum0 (avg_gradients ! 0)))])"
      using g by (rule conjunct2)
    have "interpret_call debug predict_fn normal explanation_to_vis imgs data labels noise_amount
               n_samples split visual save_path w = (Inr avg_gradients, w2\<lparr>self_labels := Some labels1\<rparr>)"
      by (simp add: interpret_call_def sg vis r2)
    then show "i = 0
          \<and> fst (interpret_call debug predict_fn normal explanation_to_vis imgs data labels
                    noise_amount n_samples split visual save_path w) = Inr avg_gradients
          \<and> trace (snd (interpret_call debug predict_fn normal explanation_to_vis imgs data labels
                    noise_amount n_samples split visual save_path w))
              = trace w1
                @ (if visual
                   then [Show (explanation_to_vis (imgs ! 0) (abs_sum0 (avg_gradients ! 0)))] else [])
                @ (case save_path of
                     None \<Rightarrow> []
                   | Some p \<Rightarrow> [Save p (explanation_to_vis (imgs ! 0) (abs_sum0 (avg_gradients ! 0)))])"
      using i0 t2 by simp
  qed
  from i n1 c3 c4 show ?thesis by (intro conjI)
qed

theorem leftover_loop_index_witness:
  "interpret_call True (\<lambda>xs lo. Inr (xs, []) :: unit + tensor3 list \<times> label list)
       (\<lambda>s sz r. ([[[[0]]]], r :: unit)) (\<lambda>img sal. sal) [()] [[[[1]]]] (Some [7]) (1/10) 3 3 True None
       \<lparr>self_labels = None, rng = (), trace = []\<rparr>
     = (Inl IndexError,
        \<lparr>self_labels = None, rng = (),
         trace = [Draw 0 [1, 1, 1, 1], Draw 0 [1, 1, 1, 1], Draw 0 [1, 1, 1, 1],
                  Predict [[[[1]]]] (Some [7]), Predict [[[[1]]]] (Some [7]),
                  Predict [[[[1]]]] (Some [7])]\<rparr>)
   \<and> trace (snd (interpret_call True (\<lambda>xs lo. Inr (xs, []) :: unit + tensor3 list \<times> label list)
       (\<lambda>s sz r. ([[[[0]]]], r :: unit)) (\<lambda>img sal. sal) [()] [[[[1]]]] (Some [7]) (1/10) 2 2 True None
       \<lparr>self_labels = None, rng = (), trace = []\<rparr>))
     = [Draw 0 [1, 1, 1, 1], Draw 0 [1, 1, 1, 1],
        Predict [[[[1]]]] (Some [7]), Predict [[[[1]]]] (Some [7]), Show [[1]]]"
proof -
  let ?pf = "\<lambda>xs lo. Inr (xs, []) :: unit + tensor3 list \<times> label list"
  let ?N = "\<lambda>(s :: real) (sz :: nat list) r. ([[[[0 :: real]]]], r :: unit)"
  let ?w = "\<lparr>self_labels = None, rng = (), trace = [] :: real list list event list\<rparr>"
  let ?s3 = "smooth_grad True ?pf ?N [[[[1]]]] (Some [7]) (1/10) 3 3 ?w"
  let ?s2 = "smooth_grad True ?pf ?N [[[[1]]]] (Some [7]) (1/10) 2 2 ?w"
  have sg3: "?s3 = (Inr ([[[[1]]]], [7], 1),
      \<lparr>self_labels = None, rng = (),
         trace = [Draw 0 [1, 1, 1, 1], Draw 0 [1, 1, 1, 1], Draw 0 [1, 1, 1, 1],
                  Predict [[[[1]]]] (Some [7]), Predict [[[[1]]]] (Some [7]),
                  Predict [[[[1]]]] (Some [7])]\<rparr>)"
    by (simp add: call_simps run_simps eval_nat_numeral)
  have sg2: "?s2 = (Inr ([[[[1]]]], [7], 0),
      \<lparr>self_labels = None, rng = (),
         trace = [Draw 0 [1, 1, 1, 1], Draw 0 [1, 1, 1, 1],
                  Predict [[[[1]]]] (Some [7]), Predict [[[[1]]]] (Some [7])]\<rparr>)"
    by (simp add: call_simps run_simps eval_nat_numeral)
  have one: "length [()] = 1" and req: "True \<or> (None :: string option) \<noteq> None" by simp_all
  from leftover_loop_index[OF sg3 one req, of "\<lambda>img sal. sal"]
  have a: "interpret_call True ?pf ?N (\<lambda>img sal. sal) [()] [[[[1]]]] (Some [7]) (1/10) 3 3 True None ?w
     = (Inl IndexError,
        \<lparr>self_labels = None, rng = (),
         trace = [Draw 0 [1, 1, 1, 1], Draw 0 [1, 1, 1, 1], Draw 0 [1, 1, 1, 1],
                  Predict [[[[1]]]] (Some [7]), Predict [[[[1]]]] (Some [7]),
                  Predict [[[[1]]]] (Some [7])]\<rparr>)"
    by simp
  from leftover_loop_index[OF sg2 one req, of "\<lambda>img sal. sal"]
  have b: "trace (snd (interpret_call True ?pf ?N (\<lambda>img sal. sal) [()] [[[[1]]]] (Some [7]) (1/10) 2 2 True None ?w))
     = [Draw 0 [1, 1, 1, 1], Draw 0 [1, 1, 1, 1],
        Predict [[[[1]]]] (Some [7]), Predict [[[[1]]]] (Some [7]), Show [[1]]]"
    by (simp add: abs_sum0_def)
  from a b show ?thesis by (rule conjI)
qed

end
